theory Spec2Isabelle
  imports Main "HOL-Library.Sublist" "HOL-Library.AList"
begin

section \<open>Errors raised by \<open>conductr_cli/sandbox_run_jvm.py\<close>\<close>

text \<open>
  Every exception the module raises, or lets escape from a library call, is a value of
  \<open>error\<close>; a function that may raise returns \<open>error + 'a\<close> with \<open>Inl\<close> for the exception.
  The arguments are the ones the source passes to the exception's constructor.
\<close>

datatype error =
    ValueError
  | IndexError
  | CalledProcessError
  | OSError
  | FileNotFoundError
  | FileExistsError
  | NotADirectoryError
  | ReadError
  | ShutilError
  | ConnectionError
  | HTTPError
  | InstanceCountError string string string
  | JavaCallError string
  | JavaVersionParseError string
  | JavaUnsupportedVendorError string
  | JavaUnsupportedVersionError string
  | BindAddressNotFoundError "string list"
  | BintrayUnreachableError string
  | SandboxImageNotFoundError string string

section \<open>Python built-ins used by the module\<close>

subsection \<open>\<open>str\<close> of an integer\<close>

definition digit_char :: "nat \<Rightarrow> char" where
  "digit_char d = ''0123456789'' ! d"

fun str_nat :: "nat \<Rightarrow> string" where
  "str_nat n = (if n < 10 then [digit_char n] else str_nat (n div 10) @ [digit_char (n mod 10)])"

declare str_nat.simps [simp del]

definition str_int :: "int \<Rightarrow> string" where
  "str_int i = (if i < 0 then CHR ''-'' # str_nat (nat (- i)) else str_nat (nat i))"

subsection \<open>Strings\<close>

text \<open>
  A Python string is modelled as a \<open>string\<close> whose characters are the code points below
  256. \<open>py_isspace\<close> is the white space that \<open>int\<close> strips from both ends of its argument,
  \<open>is_linebreak\<close> the line boundaries of \<open>str.splitlines\<close>, both restricted to that range.
\<close>

definition is_digit :: "char \<Rightarrow> bool" where
  "is_digit c = (48 \<le> (of_char c :: nat) \<and> (of_char c :: nat) \<le> 57)"

definition digit_val :: "char \<Rightarrow> int" where
  "digit_val c = int (of_char c) - 48"

definition py_isspace :: "char \<Rightarrow> bool" where
  "py_isspace c = ((of_char c :: nat) \<in> set [9, 10, 11, 12, 13, 28, 29, 30, 31, 32, 133, 160])"

definition py_strip :: "string \<Rightarrow> string" where
  "py_strip s = rev (dropWhile py_isspace (rev (dropWhile py_isspace s)))"

text \<open>
  \<open>py_digits\<close> reads the digits of a decimal literal: at least one digit, and single
  underscores allowed between two digits. \<open>py_int\<close> is \<open>int(s)\<close> for a string \<open>s\<close>:
  surrounding white space, an optional sign, then the digits; anything else raises
  \<open>ValueError\<close>.
\<close>

fun digits_acc :: "int \<Rightarrow> string \<Rightarrow> int option" where
  "digits_acc acc [] = Some acc"
| "digits_acc acc (c # cs) =
     (if is_digit c then digits_acc (acc * 10 + digit_val c) cs
      else if c = CHR ''_'' then
        (case cs of
           [] \<Rightarrow> None
         | d # ds \<Rightarrow> if is_digit d then digits_acc (acc * 10 + digit_val d) ds else None)
      else None)"

definition py_digits :: "string \<Rightarrow> int option" where
  "py_digits s =
     (case s of
        [] \<Rightarrow> None
      | c # cs \<Rightarrow> if is_digit c then digits_acc (digit_val c) cs else None)"

definition py_int :: "string \<Rightarrow> error + int" where
  "py_int s =
     (let t = py_strip s;
          r = (case t of
                 [] \<Rightarrow> None
               | c # cs \<Rightarrow>
                   if c = CHR ''-'' then map_option uminus (py_digits cs)
                   else if c = CHR ''+'' then py_digits cs
                   else py_digits t)
      in case r of None \<Rightarrow> Inl ValueError | Some n \<Rightarrow> Inr n)"

text \<open>\<open>s.split(sep)\<close> for a separator of one character.\<close>

fun split_char :: "char \<Rightarrow> string \<Rightarrow> string list" where
  "split_char sep [] = [[]]"
| "split_char sep (c # cs) =
     (if c = sep then [] # split_char sep cs
      else (case split_char sep cs of
              [] \<Rightarrow> [[c]]
            | p # ps \<Rightarrow> (c # p) # ps))"

definition is_linebreak :: "char \<Rightarrow> bool" where
  "is_linebreak c = ((of_char c :: nat) \<in> set [10, 11, 12, 13, 28, 29, 30, 133])"

fun splitlines_from :: "string \<Rightarrow> string \<Rightarrow> string list" where
  "splitlines_from cur [] = (if cur = [] then [] else [rev cur])"
| "splitlines_from cur (c # cs) =
     (if c = CHR 0x0D then
        (case cs of
           [] \<Rightarrow> [rev cur]
         | d # ds \<Rightarrow> if d = CHR 0x0A then rev cur # splitlines_from [] ds
                    else rev cur # splitlines_from [] cs)
      else if is_linebreak c then rev cur # splitlines_from [] cs
      else splitlines_from (c # cur) cs)"

definition splitlines :: "string \<Rightarrow> string list" where
  "splitlines s = splitlines_from [] s"

text \<open>\<open>xs[0:n]\<close>: a negative \<open>n\<close> counts from the end.\<close>

definition py_slice0 :: "'a list \<Rightarrow> int \<Rightarrow> 'a list" where
  "py_slice0 xs n = (if 0 \<le> n then take (nat n) xs else take (length xs - nat (- n)) xs)"

subsection \<open>\<open>re.search\<close> for the instance expression\<close>

text \<open>
  \<open>NR_OF_INSTANCE_EXPRESSION\<close> is the pattern \<open>[0-9]+\:[0-9]+\<close>. \<open>match_here\<close> matches it
  at the start of the string: the greedy \<open>[0-9]+\<close> takes every leading digit, and giving
  digits back cannot help, since the next character must be the colon. \<open>re_search\<close> tries
  every start position, as \<open>re.search\<close> does; only whether a match exists is used.
\<close>

definition match_here :: "string \<Rightarrow> bool" where
  "match_here s =
     (takeWhile is_digit s \<noteq> [] \<and>
      (case dropWhile is_digit s of
         [] \<Rightarrow> False
       | c # r \<Rightarrow> c = CHR '':'' \<and> takeWhile is_digit r \<noteq> []))"

fun re_search :: "string \<Rightarrow> bool" where
  "re_search [] = match_here []"
| "re_search (c # cs) = (match_here (c # cs) \<or> re_search cs)"

subsection \<open>Indexing\<close>

definition py_index :: "'a list \<Rightarrow> nat \<Rightarrow> error + 'a" where
  "py_index xs i = (if i < length xs then Inr (xs ! i) else Inl IndexError)"

section \<open>Constants\<close>

definition BIND_TEST_PORT :: int where
  "BIND_TEST_PORT = 19991"

definition CONDUCTR_AKKA_REMOTING_PORT :: int where
  "CONDUCTR_AKKA_REMOTING_PORT = 9004"

definition NR_OF_PROXY_INSTANCE :: int where
  "NR_OF_PROXY_INSTANCE = 1"

definition SUPPORTED_JVM_VENDOR :: string where
  "SUPPORTED_JVM_VENDOR = ''java''"

definition SUPPORTED_JVM_VERSION :: "int \<times> int" where
  "SUPPORTED_JVM_VERSION = (1, 8)"

section \<open>Instance expression\<close>

definition instance_count :: "string \<Rightarrow> string \<Rightarrow> error + (int \<times> int)" where
  "instance_count image_version instance_expression =
     (case py_int instance_expression of
        Inr nr_of_instances \<Rightarrow> Inr (nr_of_instances, nr_of_instances)
      | Inl _ \<Rightarrow>
          if re_search instance_expression then
            (let parts = split_char CHR '':'' instance_expression
             in case py_int (hd parts) of
                  Inl e \<Rightarrow> Inl e
                | Inr nr_of_core_instances \<Rightarrow>
                    (case py_int (last parts) of
                       Inl e \<Rightarrow> Inl e
                     | Inr nr_of_agent_instances \<Rightarrow>
                         Inr (nr_of_core_instances, nr_of_agent_instances)))
          else Inl (InstanceCountError image_version instance_expression
                 (''Number of containers must be an integer or '' @
                  ''a valid instance expression, i.e. 2:3 '' @
                  ''which translates to 2 core instances and 3 agent instances'')))"

section \<open>JVM validation\<close>

text \<open>
  The outcome of running \<open>java -version\<close> in a shell is a parameter: its exit status and
  its output (standard output and standard error together). \<open>subprocess.getoutput\<close> is
  \<open>getstatusoutput(cmd)[1]\<close>: it returns the output with one trailing newline removed,
  whatever the exit status, and raises nothing for a nonzero status.
\<close>

definition subprocess_getoutput :: "int \<times> string \<Rightarrow> error + string" where
  "subprocess_getoutput proc =
     (let data = snd proc
      in Inr (if data \<noteq> [] \<and> last data = CHR 0x0A then butlast data else data))"

definition version_ge :: "int \<times> int \<Rightarrow> int \<times> int \<Rightarrow> bool" where
  "version_ge a b = (fst a > fst b \<or> (fst a = fst b \<and> snd a \<ge> snd b))"

definition validate_jvm_body :: "int \<times> string \<Rightarrow> error + unit" where
  "validate_jvm_body proc =
     (case subprocess_getoutput proc of
        Inl e \<Rightarrow> Inl e
      | Inr raw_output \<Rightarrow>
          (case splitlines raw_output of
             [] \<Rightarrow> Inl (JavaVersionParseError raw_output)
           | first_line # _ \<Rightarrow>
               (case split_char CHR '' '' first_line of
                  [jvm_vendor, _, quoted] \<Rightarrow>
                    if jvm_vendor = SUPPORTED_JVM_VENDOR then
                      (let jvm_version = filter (\<lambda>c. c \<noteq> CHR 0x22) quoted
                       in case split_char CHR ''.'' jvm_version of
                            major # minor # _ \<Rightarrow>
                              (case py_int major of
                                 Inl e \<Rightarrow> Inl e
                               | Inr jvm_version_major \<Rightarrow>
                                   (case py_int minor of
                                      Inl e \<Rightarrow> Inl e
                                    | Inr jvm_version_minor \<Rightarrow>
                                        if version_ge (jvm_version_major, jvm_version_minor)
                                             SUPPORTED_JVM_VERSION
                                        then Inr ()
                                        else Inl (JavaUnsupportedVersionError jvm_version)))
                          | _ \<Rightarrow> Inl (JavaVersionParseError raw_output))
                    else Inl (JavaUnsupportedVendorError jvm_vendor)
                | _ \<Rightarrow> Inl (JavaVersionParseError raw_output))))"

text \<open>The \<open>try\<close> around the body: only \<open>CalledProcessError\<close> is caught.\<close>

definition validate_jvm_support :: "int \<times> string \<Rightarrow> error + unit" where
  "validate_jvm_support proc =
     (case validate_jvm_body proc of
        Inl CalledProcessError \<Rightarrow> Inl (JavaCallError ''Failure calling `java -version`'')
      | r \<Rightarrow> r)"

section \<open>Bind addresses\<close>

text \<open>
  \<open>addr_range\<close> is an \<open>ipaddress\<close> network: the model keeps what the function reads from it,
  the enumeration \<open>hosts()\<close> and the \<open>netmask\<close>. \<open>host.can_bind\<close> is a parameter. The loop
  also returns the probes it made, oldest first, each with the port it was made on.
\<close>

record 'a addr_range =
  hosts :: "'a list"
  netmask :: 'a

fun find_bind_loop ::
  "('a \<Rightarrow> int \<Rightarrow> bool) \<Rightarrow> int \<Rightarrow> 'a list \<Rightarrow> 'a list \<Rightarrow> 'a list \<Rightarrow> ('a \<times> int) list
     \<Rightarrow> 'a list \<times> 'a list \<times> ('a \<times> int) list" where
  "find_bind_loop can_bind nr_of_addrs [] addrs_to_bind addrs_unavailable probes =
     (addrs_to_bind, addrs_unavailable, probes)"
| "find_bind_loop can_bind nr_of_addrs (ip_addr # rest) addrs_to_bind addrs_unavailable probes =
     (let ok = can_bind ip_addr BIND_TEST_PORT;
          probes' = probes @ [(ip_addr, BIND_TEST_PORT)];
          addrs_to_bind' = (if ok then addrs_to_bind @ [ip_addr] else addrs_to_bind);
          addrs_unavailable' = (if ok then addrs_unavailable else addrs_unavailable @ [ip_addr])
      in if int (length addrs_to_bind') \<ge> nr_of_addrs
         then (addrs_to_bind', addrs_unavailable', probes')
         else find_bind_loop can_bind nr_of_addrs rest addrs_to_bind' addrs_unavailable' probes')"

text \<open>
  Modelled from the spec: \<open>host.addr_alias_setup_instructions\<close> is not among the sources.
  The spec describes its result as interface-alias commands for the given rejected
  addresses plus the range's netmask: one command for each address, the text of the
  command being the operating system's (\<open>alias_command\<close>).
\<close>

definition addr_alias_setup_instructions :: "('a \<Rightarrow> 'a \<Rightarrow> string) \<Rightarrow> 'a list \<Rightarrow> 'a \<Rightarrow> string list" where
  "addr_alias_setup_instructions alias_command addrs subnet_mask =
     map (\<lambda>a. alias_command a subnet_mask) addrs"

definition find_bind_addrs ::
  "('a \<Rightarrow> int \<Rightarrow> bool) \<Rightarrow> ('a \<Rightarrow> 'a \<Rightarrow> string) \<Rightarrow> int \<Rightarrow> 'a addr_range
     \<Rightarrow> (error + 'a list) \<times> ('a \<times> int) list" where
  "find_bind_addrs can_bind alias_command nr_of_addrs addr_range =
     (case find_bind_loop can_bind nr_of_addrs (hosts addr_range) [] [] [] of
        (addrs_to_bind, addrs_unavailable, probes) \<Rightarrow>
          if int (length addrs_to_bind) < nr_of_addrs then
            (let nr_of_addr_setup = nr_of_addrs - int (length addrs_to_bind);
                 setup_instructions =
                   addr_alias_setup_instructions alias_command
                     (py_slice0 addrs_unavailable nr_of_addr_setup) (netmask addr_range)
             in (Inl (BindAddressNotFoundError setup_instructions), probes))
          else (Inr addrs_to_bind, probes))"

section \<open>File system\<close>

text \<open>
  The file system is a tree: a file holds its bytes, a directory an association list from
  names to nodes. A path is the list of its components from the root, so that
  \<open>'{}/{}'.format(dir, name)\<close> is \<open>dir @ [name]\<close>; a name holds no separator. Symbolic links,
  permissions and devices are not modelled.
\<close>

type_synonym path = "string list"

datatype node = File string | Dir "(string \<times> node) list"

fun lookup :: "node \<Rightarrow> path \<Rightarrow> node option" where
  "lookup n [] = Some n"
| "lookup (File b) (c # p) = None"
| "lookup (Dir es) (c # p) = (case map_of es c of None \<Rightarrow> None | Some m \<Rightarrow> lookup m p)"

text \<open>
  \<open>put n p v\<close> replaces the node at \<open>p\<close> by \<open>v\<close>, or removes it when \<open>v\<close> is \<open>None\<close>. It is
  \<open>None\<close> when the parent of \<open>p\<close> is not an existing directory, or when the root would be
  removed.
\<close>

fun put :: "node \<Rightarrow> path \<Rightarrow> node option \<Rightarrow> node option" where
  "put n [] v = v"
| "put (File b) (c # p) v = None"
| "put (Dir es) (c # p) v =
     (if p = [] then
        (case v of
           None \<Rightarrow> Some (Dir (AList.delete c es))
         | Some m \<Rightarrow> Some (Dir (AList.update c m es)))
      else
        (case map_of es c of
           None \<Rightarrow> None
         | Some m \<Rightarrow>
             (case put m p v of
                None \<Rightarrow> None
              | Some m' \<Rightarrow> Some (Dir (AList.update c m' es)))))"

definition py_exists :: "node \<Rightarrow> path \<Rightarrow> bool" where
  "py_exists fs p = (lookup fs p \<noteq> None)"

definition isdir :: "node \<Rightarrow> path \<Rightarrow> bool" where
  "isdir fs p = (case lookup fs p of Some (Dir _) \<Rightarrow> True | _ \<Rightarrow> False)"

text \<open>\<open>below_file fs p\<close>: walking down \<open>p\<close> from the root meets a file, at \<open>p\<close> or above it.\<close>

fun below_file :: "node \<Rightarrow> path \<Rightarrow> bool" where
  "below_file (File b) p = True"
| "below_file (Dir es) [] = False"
| "below_file (Dir es) (c # p) = (case map_of es c of None \<Rightarrow> False | Some m \<Rightarrow> below_file m p)"

definition basename :: "path \<Rightarrow> string" where
  "basename p = (if p = [] then [] else last p)"

text \<open>
  \<open>os.path.splitext(name)[0]\<close> for a name without separator: the name up to its last dot,
  unless every character before that dot is a dot.
\<close>

definition splitext_root :: "string \<Rightarrow> string" where
  "splitext_root p =
     (if CHR ''.'' \<in> set p then
        (let stem = rev (tl (dropWhile (\<lambda>c. c \<noteq> CHR ''.'') (rev p)))
         in if filter (\<lambda>c. c \<noteq> CHR ''.'') stem \<noteq> [] then stem else p)
      else p)"

definition rmtree :: "node \<Rightarrow> path \<Rightarrow> error + node" where
  "rmtree fs p =
     (case lookup fs p of
        None \<Rightarrow> Inl FileNotFoundError
      | Some (File _) \<Rightarrow> Inl NotADirectoryError
      | Some (Dir _) \<Rightarrow> (case put fs p None of None \<Rightarrow> Inl OSError | Some fs' \<Rightarrow> Inr fs'))"

definition mkdir :: "node \<Rightarrow> path \<Rightarrow> error + node" where
  "mkdir fs p =
     (if p = [] then Inl FileExistsError
      else (case lookup fs (butlast p) of
              None \<Rightarrow> Inl FileNotFoundError
            | Some (File _) \<Rightarrow> Inl NotADirectoryError
            | Some (Dir _) \<Rightarrow>
                if py_exists fs p then Inl FileExistsError
                else (case put fs p (Some (Dir [])) of
                        None \<Rightarrow> Inl OSError
                      | Some fs' \<Rightarrow> Inr fs')))"

text \<open>
  \<open>os.makedirs\<close>: when the parent is missing it is made first, a \<open>FileExistsError\<close> of that
  recursive call being passed over; then the directory itself is made.
\<close>

function makedirs :: "node \<Rightarrow> path \<Rightarrow> error + node" where
  "makedirs fs p =
     (if p \<noteq> [] \<and> \<not> py_exists fs (butlast p) then
        (case makedirs fs (butlast p) of
           Inl e \<Rightarrow> if e = FileExistsError then mkdir fs p else Inl e
         | Inr fs' \<Rightarrow> mkdir fs' p)
      else mkdir fs p)"
  by pat_completeness auto
termination
  by (relation "measure (\<lambda>(fs, p). length p)") auto

declare makedirs.simps [simp del]

text \<open>
  \<open>shutil.unpack_archive\<close>: reading the archive is a parameter \<open>unarchive\<close>, from the file's
  name and bytes to the top-level entries of the archive, \<open>None\<close> for a file that is no
  readable archive. The entries are written into the directory, an entry replacing an
  existing one of its name. The directory exists at the call \<open>extract_binary\<close> makes (it
  has just been made, empty); for a missing directory the model raises.
\<close>

type_synonym unarchiver = "string \<Rightarrow> string \<Rightarrow> (string \<times> node) list option"

definition unpack_archive :: "unarchiver \<Rightarrow> node \<Rightarrow> path \<Rightarrow> path \<Rightarrow> error + node" where
  "unpack_archive unarchive fs filename extract_dir =
     (case lookup fs filename of
        None \<Rightarrow> Inl FileNotFoundError
      | Some (Dir _) \<Rightarrow> Inl ReadError
      | Some (File bytes) \<Rightarrow>
          (case unarchive (basename filename) bytes of
             None \<Rightarrow> Inl ReadError
           | Some entries \<Rightarrow>
               (case lookup fs extract_dir of
                  None \<Rightarrow> Inl FileNotFoundError
                | Some (File _) \<Rightarrow> Inl NotADirectoryError
                | Some (Dir es) \<Rightarrow>
                    (case put fs extract_dir
                            (Some (Dir (fold (\<lambda>(n, m). AList.update n m) entries es))) of
                       None \<Rightarrow> Inl OSError
                     | Some fs' \<Rightarrow> Inr fs'))))"

definition listdir :: "node \<Rightarrow> path \<Rightarrow> error + string list" where
  "listdir fs p =
     (case lookup fs p of
        None \<Rightarrow> Inl FileNotFoundError
      | Some (File _) \<Rightarrow> Inl NotADirectoryError
      | Some (Dir es) \<Rightarrow> Inr (map fst es))"

text \<open>
  \<open>shutil.move\<close>: a destination that is a directory receives the source under the source's
  own name, and it is an error (\<open>shutil.Error\<close>) if that name is taken there. Otherwise the
  source is renamed; a file replaces a file, a directory does not replace a file. Source
  and destination are on one device, and the parent of the destination exists at every
  call \<open>extract_binary\<close> makes; where it does not, the model raises.
\<close>

definition move :: "node \<Rightarrow> path \<Rightarrow> path \<Rightarrow> error + node" where
  "move fs src dst =
     (let real_dst = (if isdir fs dst then dst @ [basename src] else dst)
      in if isdir fs dst \<and> py_exists fs real_dst then Inl ShutilError
         else (case lookup fs src of
                 None \<Rightarrow> Inl FileNotFoundError
               | Some n \<Rightarrow>
                   if isdir fs src \<and> py_exists fs real_dst then Inl FileExistsError
                   else (case put fs src None of
                           None \<Rightarrow> Inl OSError
                         | Some fs1 \<Rightarrow>
                             (case put fs1 real_dst (Some n) of
                                None \<Rightarrow> Inl FileNotFoundError
                              | Some fs2 \<Rightarrow> Inr fs2))))"

definition rmdir :: "node \<Rightarrow> path \<Rightarrow> error + node" where
  "rmdir fs p =
     (case lookup fs p of
        None \<Rightarrow> Inl FileNotFoundError
      | Some (File _) \<Rightarrow> Inl NotADirectoryError
      | Some (Dir es) \<Rightarrow>
          if es = [] then (case put fs p None of None \<Rightarrow> Inl OSError | Some fs' \<Rightarrow> Inr fs')
          else Inl OSError)"

section \<open>The state of the host\<close>

text \<open>
  The state threaded through the run: the file system, the processes launched (each an
  argument list and a working directory, oldest first) and the calls made to the artifact
  service (reading the credentials, then each download).
\<close>

datatype bintray_call = LoadCredentials | Download string string

type_synonym launch = "string list \<times> string"

type_synonym spawner = "launch list \<Rightarrow> string list \<Rightarrow> string \<Rightarrow> int option"

record world =
  files :: node
  launched :: "launch list"
  bintray_calls :: "bintray_call list"

section \<open>Sandbox image\<close>

record conductr_info =
  info_type :: string
  extraction_dir :: path
  bintray_package_name :: string

text \<open>
  Modelled from the spec: \<open>sandbox_common.resolve_conductr_info\<close> is not among the sources.
  The spec's artifact descriptor has a kind (core or agent), a package name and an
  extraction directory, made from the cache directory; the documentation of
  \<open>obtain_sandbox_image\<close> names the two directories \<open>${image_dir}/core\<close> and
  \<open>${image_dir}/agent\<close>. The package names are those of the upstream project; nothing
  proved here depends on them.
\<close>

definition resolve_conductr_info :: "path \<Rightarrow> conductr_info \<times> conductr_info" where
  "resolve_conductr_info image_dir =
     (\<lparr>info_type = ''core'', extraction_dir = image_dir @ [''core''],
        bintray_package_name = ''ConductR-Universal''\<rparr>,
      \<lparr>info_type = ''agent'', extraction_dir = image_dir @ [''agent''],
        bintray_package_name = ''ConductR-Agent-Universal''\<rparr>)"

text \<open>
  The artifact service is a parameter of two functions. \<open>load_credentials\<close> stands for
  \<open>bintray_resolver.load_bintray_credentials()\<close>. \<open>download\<close> stands for
  \<open>bintray_resolver.bintray_download\<close> with the fixed organisation and repository: from the
  file system, the cache directory, the package name, the credentials and the version it
  yields the path of the downloaded file and the file system holding it, or raises
  (\<open>ConnectionError\<close>, \<open>HTTPError\<close>).
\<close>

record bintray =
  load_credentials :: "node \<Rightarrow> error + (string \<times> string)"
  download :: "node \<Rightarrow> path \<Rightarrow> string \<Rightarrow> string \<times> string \<Rightarrow> string \<Rightarrow> error + (path \<times> node)"

definition resolve_binary_from_cache :: "node \<Rightarrow> path \<Rightarrow> path option" where
  "resolve_binary_from_cache fs binary_cache_path =
     (if py_exists fs binary_cache_path then Some binary_cache_path else None)"

definition bintray_download ::
  "bintray \<Rightarrow> world \<Rightarrow> path \<Rightarrow> string \<Rightarrow> string \<times> string \<Rightarrow> string \<Rightarrow> error + (path \<times> world)" where
  "bintray_download b w image_dir package_name auth version =
     (case download b (files w) image_dir package_name auth version of
        Inl e \<Rightarrow> Inl e
      | Inr (p, fs') \<Rightarrow>
          Inr (p, w\<lparr>files := fs', bintray_calls := bintray_calls w @ [Download package_name version]\<rparr>))"

text \<open>The body of the \<open>try\<close> in \<open>resolve_binaries\<close>.\<close>

definition download_missing ::
  "bintray \<Rightarrow> conductr_info \<Rightarrow> conductr_info \<Rightarrow> path \<Rightarrow> string \<Rightarrow> path option \<Rightarrow> path option \<Rightarrow> world
     \<Rightarrow> error + ((path \<times> path) \<times> world)" where
  "download_missing b core_info agent_info image_dir image_version core_path agent_path w =
     (case load_credentials b (files w) of
        Inl e \<Rightarrow> Inl e
      | Inr bintray_auth \<Rightarrow>
          (let w0 = w\<lparr>bintray_calls := bintray_calls w @ [LoadCredentials]\<rparr>
           in case (case core_path of
                      None \<Rightarrow> bintray_download b w0 image_dir (bintray_package_name core_info)
                                bintray_auth image_version
                    | Some p \<Rightarrow> Inr (p, w0)) of
                Inl e \<Rightarrow> Inl e
              | Inr (core_path', w1) \<Rightarrow>
                  (case (case agent_path of
                           None \<Rightarrow> bintray_download b w1 image_dir (bintray_package_name agent_info)
                                     bintray_auth image_version
                         | Some p \<Rightarrow> Inr (p, w1)) of
                     Inl e \<Rightarrow> Inl e
                   | Inr (agent_path', w2) \<Rightarrow> Inr ((core_path', agent_path'), w2))))"

definition resolve_binaries ::
  "bintray \<Rightarrow> conductr_info \<Rightarrow> conductr_info \<Rightarrow> path \<Rightarrow> string \<Rightarrow> world
     \<Rightarrow> error + ((path \<times> path) \<times> world)" where
  "resolve_binaries b core_info agent_info image_dir image_version w =
     (let core_path = resolve_binary_from_cache (files w)
                        (image_dir @ [''conductr-'' @ image_version @ ''.tgz'']);
          agent_path = resolve_binary_from_cache (files w)
                        (image_dir @ [''conductr-agent-'' @ image_version @ ''.tgz''])
      in case (core_path, agent_path) of
           (Some cp, Some ap) \<Rightarrow> Inr ((cp, ap), w)
         | _ \<Rightarrow>
             (case download_missing b core_info agent_info image_dir image_version
                     core_path agent_path w of
                Inl ConnectionError \<Rightarrow> Inl (BintrayUnreachableError ''Bintray is unreachable.'')
              | Inl HTTPError \<Rightarrow> Inl (SandboxImageNotFoundError (info_type core_info) image_version)
              | r \<Rightarrow> r))"

fun move_all :: "node \<Rightarrow> path \<Rightarrow> path \<Rightarrow> string list \<Rightarrow> error + node" where
  "move_all fs extraction_subdir dir [] = Inr fs"
| "move_all fs extraction_subdir dir (filename # rest) =
     (case move fs (extraction_subdir @ [filename]) (dir @ [filename]) of
        Inl e \<Rightarrow> Inl e
      | Inr fs' \<Rightarrow> move_all fs' extraction_subdir dir rest)"

definition extract_binary :: "unarchiver \<Rightarrow> node \<Rightarrow> path \<Rightarrow> conductr_info \<Rightarrow> error + (path \<times> node)" where
  "extract_binary unarchive fs path conductr_info =
     (let dir = extraction_dir conductr_info
      in case (if py_exists fs dir then rmtree fs dir else Inr fs) of
           Inl e \<Rightarrow> Inl e
         | Inr fs1 \<Rightarrow>
        (case makedirs fs1 dir of
           Inl e \<Rightarrow> Inl e
         | Inr fs2 \<Rightarrow>
        (case unpack_archive unarchive fs2 path dir of
           Inl e \<Rightarrow> Inl e
         | Inr fs3 \<Rightarrow>
        (let binary_basename = splitext_root (basename path);
             extraction_subdir = dir @ [binary_basename]
         in case listdir fs3 extraction_subdir of
              Inl e \<Rightarrow> Inl e
            | Inr names \<Rightarrow>
           (case move_all fs3 extraction_subdir dir names of
              Inl e \<Rightarrow> Inl e
            | Inr fs4 \<Rightarrow>
           (case rmdir fs4 extraction_subdir of
              Inl e \<Rightarrow> Inl e
            | Inr fs5 \<Rightarrow> Inr (dir, fs5)))))))"

text \<open>
  For the proofs: \<open>prepare_dir fs dir\<close> is the part of \<open>extract_binary\<close> before the
  unpacking and \<open>flatten_at fs dir b\<close> the part after it, for the subdirectory \<open>b\<close> of
  \<open>dir\<close>; \<open>graft fs dir r\<close> writes the tree that \<open>r\<close> returns at \<open>dir\<close>.
\<close>

definition prepare_dir :: "node \<Rightarrow> path \<Rightarrow> error + node" where
  "prepare_dir fs dir =
     (case (if py_exists fs dir then rmtree fs dir else Inr fs) of
        Inl e \<Rightarrow> Inl e
      | Inr fs1 \<Rightarrow> makedirs fs1 dir)"

definition flatten_at :: "node \<Rightarrow> path \<Rightarrow> string \<Rightarrow> error + node" where
  "flatten_at fs dir b =
     (case listdir fs (dir @ [b]) of
        Inl e \<Rightarrow> Inl e
      | Inr names \<Rightarrow>
          (case move_all fs (dir @ [b]) dir names of
             Inl e \<Rightarrow> Inl e
           | Inr fs4 \<Rightarrow> rmdir fs4 (dir @ [b])))"

definition graft :: "node \<Rightarrow> path \<Rightarrow> error + node \<Rightarrow> error + node" where
  "graft fs dir r =
     (case r of
        Inl e \<Rightarrow> Inl e
      | Inr sub \<Rightarrow> (case put fs dir (Some sub) of None \<Rightarrow> Inl OSError | Some fs' \<Rightarrow> Inr fs'))"

text \<open>The frame of a change at \<open>d\<close>: every path unrelated to \<open>d\<close> keeps its node.\<close>

definition same_outside :: "path \<Rightarrow> node \<Rightarrow> node \<Rightarrow> bool" where
  "same_outside d fs fs' = (\<forall>q. \<not> prefix d q \<longrightarrow> \<not> prefix q d \<longrightarrow> lookup fs' q = lookup fs q)"

text \<open>
  \<open>archive_tree unarchive name bytes\<close> is what extraction makes of the archive \<open>name\<close> with
  the content \<open>bytes\<close>: its entries, flattened.
\<close>

definition archive_tree :: "unarchiver \<Rightarrow> string \<Rightarrow> string \<Rightarrow> error + node" where
  "archive_tree unarchive name bytes =
     (case unarchive name bytes of
        None \<Rightarrow> Inl ReadError
      | Some entries \<Rightarrow>
          flatten_at (Dir (fold (\<lambda>(n, m). AList.update n m) entries [])) [] (splitext_root name))"

definition obtain_sandbox_image ::
  "bintray \<Rightarrow> unarchiver \<Rightarrow> path \<Rightarrow> string \<Rightarrow> world \<Rightarrow> error + ((path \<times> path) \<times> world)" where
  "obtain_sandbox_image b unarchive image_dir image_version w =
     (case resolve_conductr_info image_dir of
        (core_info, agent_info) \<Rightarrow>
          (case resolve_binaries b core_info agent_info image_dir image_version w of
             Inl e \<Rightarrow> Inl e
           | Inr ((core_binary_path, agent_binary_path), w1) \<Rightarrow>
               (case extract_binary unarchive (files w1) core_binary_path core_info of
                  Inl e \<Rightarrow> Inl e
                | Inr (core_extracted_dir, fs2) \<Rightarrow>
                    (case extract_binary unarchive fs2 agent_binary_path agent_info of
                       Inl e \<Rightarrow> Inl e
                     | Inr (agent_extracted_dir, fs3) \<Rightarrow>
                         Inr ((core_extracted_dir, agent_extracted_dir), w1\<lparr>files := fs3\<rparr>)))))"

section \<open>Launching processes\<close>

text \<open>
  \<open>subprocess.Popen(commands, cwd=dir, ...)\<close> is the only effect of the two launch loops.
  The operating system is a parameter \<open>popen\<close>: given the launches made so far, the
  argument list and the working directory, it yields the new process id, or \<open>None\<close> when
  the spawn fails (\<open>OSError\<close>). The state threaded through the loops is the list of the
  launches made, oldest first. An address is of any type \<open>'a\<close>; \<open>fmt\<close> is its \<open>str\<close>.
\<close>

definition Popen :: "spawner \<Rightarrow> launch list \<Rightarrow> string list \<Rightarrow> string \<Rightarrow> error + (int \<times> launch list)" where
  "Popen popen w commands cwd =
     (case popen w commands cwd of
        None \<Rightarrow> Inl OSError
      | Some pid \<Rightarrow> Inr (pid, w @ [(commands, cwd)]))"

definition core_commands :: "('a \<Rightarrow> string) \<Rightarrow> string \<Rightarrow> 'a list \<Rightarrow> nat \<Rightarrow> 'a \<Rightarrow> error + string list" where
  "core_commands fmt core_extracted_dir bind_addrs idx bind_addr =
     (let commands = [core_extracted_dir @ ''/bin/conductr'', ''-Dconductr.ip='' @ fmt bind_addr]
      in if idx > 0
         then (case py_index bind_addrs 0 of
                 Inl e \<Rightarrow> Inl e
               | Inr seed \<Rightarrow>
                   Inr (commands @ [''--seed'', fmt seed @ '':'' @ str_int CONDUCTR_AKKA_REMOTING_PORT]))
         else Inr commands)"

fun start_core_loop ::
  "spawner \<Rightarrow> ('a \<Rightarrow> string) \<Rightarrow> string \<Rightarrow> 'a list \<Rightarrow> (nat \<times> 'a) list \<Rightarrow> int list \<Rightarrow> launch list
     \<Rightarrow> error + (int list \<times> launch list)" where
  "start_core_loop popen fmt dir bind_addrs [] pids w = Inr (pids, w)"
| "start_core_loop popen fmt dir bind_addrs ((idx, bind_addr) # rest) pids w =
     (case core_commands fmt dir bind_addrs idx bind_addr of
        Inl e \<Rightarrow> Inl e
      | Inr commands \<Rightarrow>
          (case Popen popen w commands dir of
             Inl e \<Rightarrow> Inl e
           | Inr (pid, w') \<Rightarrow> start_core_loop popen fmt dir bind_addrs rest (pids @ [pid]) w'))"

definition start_core_instances ::
  "spawner \<Rightarrow> ('a \<Rightarrow> string) \<Rightarrow> string \<Rightarrow> 'a list \<Rightarrow> launch list \<Rightarrow> error + (int list \<times> launch list)" where
  "start_core_instances popen fmt core_extracted_dir bind_addrs w =
     start_core_loop popen fmt core_extracted_dir bind_addrs (enumerate 0 bind_addrs) [] w"

definition agent_commands :: "('a \<Rightarrow> string) \<Rightarrow> string \<Rightarrow> 'a \<Rightarrow> string list" where
  "agent_commands fmt agent_extracted_dir bind_addr =
     [agent_extracted_dir @ ''/bin/conductr-agent'',
      ''-Dconductr.agent.ip='' @ fmt bind_addr,
      ''--core-node'',
      fmt bind_addr @ '':'' @ str_int CONDUCTR_AKKA_REMOTING_PORT]"

fun start_agent_loop ::
  "spawner \<Rightarrow> ('a \<Rightarrow> string) \<Rightarrow> string \<Rightarrow> (nat \<times> 'a) list \<Rightarrow> int list \<Rightarrow> launch list
     \<Rightarrow> error + (int list \<times> launch list)" where
  "start_agent_loop popen fmt dir [] pids w = Inr (pids, w)"
| "start_agent_loop popen fmt dir ((idx, bind_addr) # rest) pids w =
     (case Popen popen w (agent_commands fmt dir bind_addr) dir of
        Inl e \<Rightarrow> Inl e
      | Inr (pid, w') \<Rightarrow> start_agent_loop popen fmt dir rest (pids @ [pid]) w')"

definition start_agent_instances ::
  "spawner \<Rightarrow> ('a \<Rightarrow> string) \<Rightarrow> string \<Rightarrow> 'a list \<Rightarrow> launch list \<Rightarrow> error + (int list \<times> launch list)" where
  "start_agent_instances popen fmt agent_extracted_dir bind_addrs w =
     start_agent_loop popen fmt agent_extracted_dir (enumerate 0 bind_addrs) [] w"

section \<open>The run\<close>

record 'a SandboxRunResult =
  res_core_pids :: "int list"
  res_core_addrs :: "'a list"
  res_agent_pids :: "int list"
  res_agent_addrs :: "'a list"
  res_nr_of_proxy_instances :: int
  res_host :: string

text \<open>\<open>SandboxRunResult.__init__\<close>: \<open>self.host = str(core_addrs[0])\<close> raises on an empty list.\<close>

definition SandboxRunResult_init ::
  "('a \<Rightarrow> string) \<Rightarrow> int list \<Rightarrow> 'a list \<Rightarrow> int list \<Rightarrow> 'a list \<Rightarrow> int \<Rightarrow> error + 'a SandboxRunResult" where
  "SandboxRunResult_init fmt core_pids core_addrs agent_pids agent_addrs nr_of_proxy_instances =
     (case py_index core_addrs 0 of
        Inl e \<Rightarrow> Inl e
      | Inr a \<Rightarrow>
          Inr \<lparr>res_core_pids = core_pids, res_core_addrs = core_addrs,
               res_agent_pids = agent_pids, res_agent_addrs = agent_addrs,
               res_nr_of_proxy_instances = nr_of_proxy_instances, res_host = fmt a\<rparr>)"

text \<open>
  \<open>args\<close> holds the parsed command line. The host is a record of parameters: the outcome of
  \<open>java -version\<close>, \<open>sandbox_stop.stop\<close>, \<open>host.can_bind\<close>, the text of an alias command,
  \<open>str\<close> of an address, the artifact service, the archive reader and the process spawner.
  An extraction directory is passed to the launcher as a string, \<open>path_str\<close>.
\<close>

record 'a args =
  args_image_version :: string
  args_nr_of_containers :: string
  args_addr_range :: "'a addr_range"
  args_image_dir :: path

record 'a host_env =
  env_java :: "int \<times> string"
  env_stop :: "world \<Rightarrow> error + world"
  env_can_bind :: "'a \<Rightarrow> int \<Rightarrow> bool"
  env_alias_command :: "'a \<Rightarrow> 'a \<Rightarrow> string"
  env_str :: "'a \<Rightarrow> string"
  env_bintray :: bintray
  env_unarchive :: unarchiver
  env_popen :: spawner

definition path_str :: "path \<Rightarrow> string" where
  "path_str p = concat (map (\<lambda>c. CHR ''/'' # c) p)"

definition run :: "'a host_env \<Rightarrow> 'a args \<Rightarrow> world \<Rightarrow> error + ('a SandboxRunResult \<times> world)" where
  "run env args w =
     (case instance_count (args_image_version args) (args_nr_of_containers args) of
        Inl e \<Rightarrow> Inl e
      | Inr (nr_of_core_instances, nr_of_agent_instances) \<Rightarrow>
     (case validate_jvm_support (env_java env) of
        Inl e \<Rightarrow> Inl e
      | Inr _ \<Rightarrow>
     (case env_stop env w of
        Inl e \<Rightarrow> Inl e
      | Inr w1 \<Rightarrow>
     (case fst (find_bind_addrs (env_can_bind env) (env_alias_command env)
                  (max nr_of_core_instances nr_of_agent_instances) (args_addr_range args)) of
        Inl e \<Rightarrow> Inl e
      | Inr bind_addrs \<Rightarrow>
     (case obtain_sandbox_image (env_bintray env) (env_unarchive env) (args_image_dir args)
             (args_image_version args) w1 of
        Inl e \<Rightarrow> Inl e
      | Inr ((core_extracted_dir, agent_extracted_dir), w2) \<Rightarrow>
     (let core_addrs = py_slice0 bind_addrs nr_of_core_instances
      in case start_core_instances (env_popen env) (env_str env) (path_str core_extracted_dir)
                core_addrs (launched w2) of
           Inl e \<Rightarrow> Inl e
         | Inr (core_pids, l3) \<Rightarrow>
     (let agent_addrs = py_slice0 bind_addrs nr_of_agent_instances
      in case start_agent_instances (env_popen env) (env_str env) (path_str agent_extracted_dir)
                (py_slice0 bind_addrs nr_of_agent_instances) l3 of
           Inl e \<Rightarrow> Inl e
         | Inr (agent_pids, l4) \<Rightarrow>
     (case SandboxRunResult_init (env_str env) core_pids core_addrs agent_pids agent_addrs
             NR_OF_PROXY_INSTANCE of
        Inl e \<Rightarrow> Inl e
      | Inr r \<Rightarrow> Inr (r, w2\<lparr>launched := l4\<rparr>)))))))))"

section \<open>A sample host\<close>

text \<open>
  Concrete values for the parameters, used to run the model: IPv4 addresses as numbers
  with their dotted form, a host on which exactly the listed addresses can be bound, the
  alias command of the documentation of \<open>find_bind_addrs\<close>, the range
  \<open>192.168.128.0/29\<close>, an archive reader given by a table, three artifact services and a
  spawner that numbers the processes.
\<close>

definition ipv4_str :: "nat \<Rightarrow> string" where
  "ipv4_str a =
     str_nat (a div 16777216 mod 256) @ ''.'' @ str_nat (a div 65536 mod 256) @ ''.'' @
     str_nat (a div 256 mod 256) @ ''.'' @ str_nat (a mod 256)"

definition bindable_in :: "nat list \<Rightarrow> nat \<Rightarrow> int \<Rightarrow> bool" where
  "bindable_in free a port = (a \<in> set free)"

definition ifconfig_alias :: "nat \<Rightarrow> nat \<Rightarrow> string" where
  "ifconfig_alias a subnet_mask =
     ''sudo ifconfig lo0 alias '' @ ipv4_str a @ '' '' @ ipv4_str subnet_mask"

definition net_29 :: "nat addr_range" where
  "net_29 = \<lparr>hosts = [3232268289, 3232268290, 3232268291, 3232268292, 3232268293, 3232268294],
             netmask = 4294967288\<rparr>"

definition net_30 :: "nat addr_range" where
  "net_30 = \<lparr>hosts = [3232268289, 3232268290], netmask = 4294967292\<rparr>"

definition archive_table :: "(string \<times> (string \<times> node) list) list \<Rightarrow> unarchiver" where
  "archive_table table name bytes = map_of table bytes"

definition stored_credentials :: "node \<Rightarrow> error + (string \<times> string)" where
  "stored_credentials fs = Inr (''user'', ''secret'')"

definition download_unreachable ::
  "node \<Rightarrow> path \<Rightarrow> string \<Rightarrow> string \<times> string \<Rightarrow> string \<Rightarrow> error + (path \<times> node)" where
  "download_unreachable fs image_dir package_name auth version = Inl ConnectionError"

definition download_not_found ::
  "node \<Rightarrow> path \<Rightarrow> string \<Rightarrow> string \<times> string \<Rightarrow> string \<Rightarrow> error + (path \<times> node)" where
  "download_not_found fs image_dir package_name auth version = Inl HTTPError"

definition bintray_unreachable :: bintray where
  "bintray_unreachable = \<lparr>load_credentials = stored_credentials, download = download_unreachable\<rparr>"

definition bintray_not_found :: bintray where
  "bintray_not_found = \<lparr>load_credentials = stored_credentials, download = download_not_found\<rparr>"

definition numbered_pids :: spawner where
  "numbered_pids w commands cwd = Some (1000 + int (length w))"

definition stop_nothing :: "world \<Rightarrow> error + world" where
  "stop_nothing w = Inr w"

definition conductr_tgz :: "(string \<times> node) list" where
  "conductr_tgz =
     [(''conductr-1.0'',
       Dir [(''bin'', Dir [(''conductr'', File ''#!core'')]), (''conf'', File ''c'')])]"

definition agent_tgz :: "(string \<times> node) list" where
  "agent_tgz = [(''conductr-agent-1.0'', Dir [(''bin'', Dir [(''conductr-agent'', File ''#!agent'')])])]"

definition other_tgz :: "(string \<times> node) list" where
  "other_tgz = [(''release'', Dir [(''bin'', Dir [(''conductr'', File ''#!core'')])])]"

definition sample_archives :: unarchiver where
  "sample_archives =
     archive_table [(''CORE'', conductr_tgz), (''AGENT'', agent_tgz), (''OTHER'', other_tgz)]"

definition cached_fs :: node where
  "cached_fs =
     Dir [(''images'',
           Dir [(''conductr-1.0.tgz'', File ''CORE''),
                (''conductr-agent-1.0.tgz'', File ''AGENT''),
                (''core'', Dir [(''stale'', File ''old'')])])]"

definition renamed_fs :: node where
  "renamed_fs = Dir [(''images'', Dir [(''conductr-1.0.tgz'', File ''OTHER'')])]"

definition extracted_fs :: node where
  "extracted_fs =
     Dir [(''images'',
           Dir [(''conductr-1.0.tgz'', File ''CORE''),
                (''conductr-agent-1.0.tgz'', File ''AGENT''),
                (''core'', Dir [(''bin'', Dir [(''conductr'', File ''#!core'')]),
                               (''conf'', File ''c'')]),
                (''agent'', Dir [(''bin'', Dir [(''conductr-agent'', File ''#!agent'')])])])]"

definition core_only_fs :: node where
  "core_only_fs = Dir [(''images'', Dir [(''conductr-1.0.tgz'', File ''CORE'')])]"

definition sample_world :: "node \<Rightarrow> world" where
  "sample_world fs = \<lparr>files = fs, launched = [], bintray_calls = []\<rparr>"

definition sample_env :: "nat host_env" where
  "sample_env =
     \<lparr>env_java = (0, ''java version '' @ [CHR 0x22] @ ''1.8.0_72'' @ [CHR 0x22, CHR 0x0A]),
      env_stop = stop_nothing,
      env_can_bind = bindable_in [3232268289, 3232268290, 3232268291],
      env_alias_command = ifconfig_alias,
      env_str = ipv4_str,
      env_bintray = bintray_unreachable,
      env_unarchive = sample_archives,
      env_popen = numbered_pids\<rparr>"

definition sample_args :: "string \<Rightarrow> nat args" where
  "sample_args expression =
     \<lparr>args_image_version = ''1.0'', args_nr_of_containers = expression,
      args_addr_range = net_29, args_image_dir = [''images'']\<rparr>"

section \<open>Verification: the instance expression\<close>

lemma digit_cases: "d < 10 \<Longrightarrow> d = 0 \<or> d = 1 \<or> d = 2 \<or> d = 3 \<or> d = 4 \<or> d = 5 \<or> d = 6 \<or> d = 7 \<or> d = 8 \<or> d = (9::nat)"
  by arith

lemma digit_char_props:
  assumes "d < 10"
  shows "is_digit (digit_char d)" and "digit_val (digit_char d) = int d"
    and "\<not> py_isspace (digit_char d)" and "digit_char d \<noteq> CHR ''-''" and "digit_char d \<noteq> CHR ''+''"
    and "digit_char d \<noteq> CHR '':''" and "digit_char d \<noteq> CHR ''_''"
  using digit_cases [OF assms]
  by (auto simp: digit_char_def is_digit_def digit_val_def py_isspace_def)

lemma str_nat_digits: "list_all is_digit (str_nat n)"
proof (induction n rule: str_nat.induct)
  case (1 n)
  show ?case
  proof (cases "n < 10")
    case True
    then show ?thesis by (simp add: str_nat.simps [of n] digit_char_props)
  next
    case False
    with 1 show ?thesis by (simp add: str_nat.simps [of n] digit_char_props)
  qed
qed

lemma str_nat_nonempty: "str_nat n \<noteq> []"
  by (simp add: str_nat.simps [of n])

lemma digits_acc_all:
  "list_all is_digit xs \<Longrightarrow> digits_acc acc xs = Some (foldl (\<lambda>a c. a * 10 + digit_val c) acc xs)"
  by (induction xs arbitrary: acc) auto

lemma digits_acc_stop:
  "list_all is_digit xs \<Longrightarrow> \<not> is_digit c \<Longrightarrow> c \<noteq> CHR ''_'' \<Longrightarrow> digits_acc acc (xs @ c # r) = None"
  by (induction xs arbitrary: acc) auto

lemma foldl_str_nat:
  "foldl (\<lambda>a c. a * 10 + digit_val c) acc (str_nat n) = acc * 10 ^ length (str_nat n) + int n"
proof (induction n arbitrary: acc rule: str_nat.induct)
  case (1 n)
  show ?case
  proof (cases "n < 10")
    case True
    then show ?thesis by (simp add: str_nat.simps [of n] digit_char_props)
  next
    case False
    have n: "int n = int (n div 10) * 10 + int (n mod 10)" by presburger
    have m: "n mod 10 < 10" by simp
    have "foldl (\<lambda>a c. a * 10 + digit_val c) acc (str_nat n)
        = foldl (\<lambda>a c. a * 10 + digit_val c) acc (str_nat (n div 10)) * 10 + int (n mod 10)"
      using False by (simp add: str_nat.simps [of n] digit_char_props(2) [OF m] del: of_nat_mod)
    also have "\<dots> = (acc * 10 ^ length (str_nat (n div 10)) + int (n div 10)) * 10 + int (n mod 10)"
      using 1 [OF False] by simp
    also have "\<dots> = acc * 10 ^ length (str_nat n) + int n"
      using False by (simp only: n) (simp add: str_nat.simps [of n] algebra_simps del: of_nat_div of_nat_mod)
    finally show ?thesis .
  qed
qed

lemma py_digits_all:
  assumes "list_all is_digit xs" and "xs \<noteq> []"
  shows "py_digits xs = Some (foldl (\<lambda>a c. a * 10 + digit_val c) 0 xs)"
proof -
  from assms obtain c cs where xs: "xs = c # cs" by (cases xs) auto
  with assms show ?thesis by (simp add: py_digits_def digits_acc_all)
qed

lemma py_digits_str_nat: "py_digits (str_nat n) = Some (int n)"
  by (simp add: py_digits_all str_nat_digits str_nat_nonempty foldl_str_nat)

lemma py_digits_stop:
  assumes "list_all is_digit xs" and "\<not> is_digit c" and "c \<noteq> CHR ''_''"
  shows "py_digits (xs @ c # r) = None"
proof (cases xs)
  case Nil
  with assms show ?thesis by (simp add: py_digits_def)
next
  case (Cons d ds)
  with assms show ?thesis by (simp add: py_digits_def digits_acc_stop)
qed

lemma digit_not_space: "is_digit c \<Longrightarrow> \<not> py_isspace c"
  by (auto simp: is_digit_def py_isspace_def)

lemma digit_not_sign: "is_digit c \<Longrightarrow> c \<noteq> CHR ''-'' \<and> c \<noteq> CHR ''+'' \<and> c \<noteq> CHR '':'' \<and> c \<noteq> CHR ''_''"
  by (auto simp: is_digit_def)

lemma py_strip_id:
  assumes "s \<noteq> []" and "\<not> py_isspace (hd s)" and "\<not> py_isspace (last s)"
  shows "py_strip s = s"
proof -
  from assms have 1: "dropWhile py_isspace s = s" by (cases s) auto
  from assms(1) have "rev s = last s # rev (butlast s)"
    by (induct s rule: rev_induct) simp_all
  with assms(3) have 2: "dropWhile py_isspace (rev s) = rev s"
    by (metis dropWhile.simps(2))
  show ?thesis by (simp add: py_strip_def 1 2)
qed

lemma py_int_digits:
  assumes "list_all is_digit xs" and "xs \<noteq> []"
  shows "py_int xs = Inr (foldl (\<lambda>a c. a * 10 + digit_val c) 0 xs)"
proof -
  from assms have "is_digit (hd xs)" and "is_digit (last xs)"
    by (auto simp: list_all_iff)
  then have s: "py_strip xs = xs" and h: "hd xs \<noteq> CHR ''-''" "hd xs \<noteq> CHR ''+''"
    using assms by (auto simp: py_strip_id digit_not_space digit_not_sign)
  from assms obtain c cs where xs: "xs = c # cs" by (cases xs) auto
  from h xs py_digits_all [OF assms] s show ?thesis
    by (simp add: py_int_def)
qed

lemma py_int_str_nat: "py_int (str_nat n) = Inr (int n)"
  by (simp add: py_int_digits str_nat_digits str_nat_nonempty foldl_str_nat)

lemma py_int_pair:
  assumes "list_all is_digit xs" and "xs \<noteq> []" and "list_all is_digit ys" and "ys \<noteq> []"
  shows "py_int (xs @ CHR '':'' # ys) = Inl ValueError"
proof -
  let ?s = "xs @ CHR '':'' # ys"
  from assms have "is_digit (hd ?s)" and "is_digit (last ?s)"
    by (auto simp: list_all_iff)
  then have s: "py_strip ?s = ?s" and h: "hd ?s \<noteq> CHR ''-''" "hd ?s \<noteq> CHR ''+''"
    by (auto simp: py_strip_id digit_not_space digit_not_sign)
  have n: "py_digits ?s = None"
    using assms by (intro py_digits_stop) (auto simp: is_digit_def)
  from assms obtain c cs where xs: "xs = c # cs" by (cases xs) auto
  from h n s xs show ?thesis by (simp add: py_int_def)
qed

lemma takeWhile_digits: "list_all is_digit xs \<Longrightarrow> takeWhile is_digit (xs @ CHR '':'' # ys) = xs"
  by (induction xs) (auto simp: is_digit_def)

lemma dropWhile_digits: "list_all is_digit xs \<Longrightarrow> dropWhile is_digit (xs @ CHR '':'' # ys) = CHR '':'' # ys"
  by (induction xs) (auto simp: is_digit_def)

lemma takeWhile_all: "list_all P xs \<Longrightarrow> takeWhile P xs = xs"
  by (induction xs) auto

lemma re_search_pair:
  assumes "list_all is_digit xs" and "xs \<noteq> []" and "list_all is_digit ys" and "ys \<noteq> []"
  shows "re_search (xs @ CHR '':'' # ys)"
proof -
  have "match_here (xs @ CHR '':'' # ys)"
    using assms by (simp add: match_here_def takeWhile_digits dropWhile_digits takeWhile_all)
  moreover from assms(2) obtain c cs where "xs = c # cs" by (cases xs) auto
  ultimately show ?thesis by simp
qed

lemma split_char_none: "sep \<notin> set xs \<Longrightarrow> split_char sep xs = [xs]"
  by (induction xs) auto

lemma split_char_append:
  "sep \<notin> set xs \<Longrightarrow> split_char sep (xs @ sep # ys) = xs # split_char sep ys"
  by (induction xs) auto

lemma split_char_nonempty: "split_char sep s \<noteq> []"
  by (induction s) (auto split: list.splits)

lemma digits_no_colon: "list_all is_digit xs \<Longrightarrow> CHR '':'' \<notin> set xs"
  by (induction xs) (auto simp: is_digit_def)

lemma instance_count_pair:
  assumes "list_all is_digit xs" and "xs \<noteq> []" and "list_all is_digit ys" and "ys \<noteq> []"
  shows "instance_count v (xs @ CHR '':'' # ys) =
    Inr (foldl (\<lambda>a c. a * 10 + digit_val c) 0 xs, foldl (\<lambda>a c. a * 10 + digit_val c) 0 ys)"
proof -
  have 1: "py_int (xs @ CHR '':'' # ys) = Inl ValueError"
    using assms by (rule py_int_pair)
  have 2: "re_search (xs @ CHR '':'' # ys)"
    using assms by (rule re_search_pair)
  have 3: "split_char CHR '':'' (xs @ CHR '':'' # ys) = [xs, ys]"
    using assms(1,3) by (simp add: split_char_append split_char_none digits_no_colon)
  show ?thesis
    by (simp add: instance_count_def 1 2 3 py_int_digits [OF assms(1,2)] py_int_digits [OF assms(3,4)])
qed

text \<open>
  C2: for every non-negative integer \<open>N\<close>, parsing \<open>str(N)\<close> gives \<open>N\<close> core and \<open>N\<close> agent
  instances, and for all non-negative integers \<open>A\<close> and \<open>B\<close>, parsing \<open>"A:B"\<close> gives \<open>A\<close> core
  and \<open>B\<close> agent instances.
\<close>

theorem instance_count_of_str:
  "instance_count v (str_int (int N)) = Inr (int N, int N) \<and>
   instance_count v (str_int (int A) @ '':'' @ str_int (int B)) = Inr (int A, int B)"
proof
  show "instance_count v (str_int (int N)) = Inr (int N, int N)"
    by (simp add: str_int_def instance_count_def py_int_str_nat)
  have "instance_count v (str_nat A @ CHR '':'' # str_nat B) = Inr (int A, int B)"
    using instance_count_pair [OF str_nat_digits str_nat_nonempty str_nat_digits str_nat_nonempty, of v A B]
    by (simp add: foldl_str_nat)
  then show "instance_count v (str_int (int A) @ '':'' @ str_int (int B)) = Inr (int A, int B)"
    by (simp add: str_int_def)
qed

text \<open>
  C3: a string that is neither an integer nor exactly \<open><int>:<int>\<close> should be rejected
  with \<open>InstanceCountError\<close>. The pattern is searched anywhere in the string, so \<open>1:2:3\<close>
  is accepted, with its first and last part as the counts, and for \<open>a1:2b\<close> the
  \<open>ValueError\<close> of \<open>int('a1')\<close> escapes.
\<close>

theorem instance_count_unanchored:
  "instance_count ''1.0'' ''1:2:3'' = Inr (1, 3) \<and>
   instance_count ''1.0'' ''a1:2b'' = Inl ValueError"
  by (simp add: instance_count_def py_int_def py_strip_def py_isspace_def py_digits_def
      is_digit_def digit_val_def match_here_def)

section \<open>Verification: JVM validation\<close>

lemma py_int_error: "py_int s = Inl e \<Longrightarrow> e = ValueError"
  by (auto simp: py_int_def Let_def split: option.splits)

lemma validate_jvm_body_errors:
  "validate_jvm_body proc = Inl e \<Longrightarrow>
     e = ValueError \<or> (\<exists>m. e = JavaVersionParseError m) \<or> (\<exists>m. e = JavaUnsupportedVendorError m)
       \<or> (\<exists>m. e = JavaUnsupportedVersionError m)"
  unfolding validate_jvm_body_def subprocess_getoutput_def Let_def
  by (auto split: list.splits sum.splits if_splits dest!: py_int_error)

lemma validate_jvm_body_not_call_error:
  "validate_jvm_body proc \<noteq> Inl (JavaCallError msg) \<and> validate_jvm_body proc \<noteq> Inl CalledProcessError"
  using validate_jvm_body_errors [of proc] by auto

text \<open>
  C9: a nonzero exit status of the version probe should give \<open>JavaCallError\<close>.
  \<open>subprocess.getoutput\<close> does not raise on a nonzero status, so the handler is never
  entered: the output is parsed like any other. A shell that finds no \<open>java\<close> exits with
  127, and the result is \<open>JavaVersionParseError\<close>; whatever the status and the output,
  the result is never \<open>JavaCallError\<close>.
\<close>

theorem validate_jvm_support_nonzero_exit:
  "validate_jvm_support (127, ''sh: java: command not found'' @ [CHR 0x0A])
     = Inl (JavaVersionParseError ''sh: java: command not found'') \<and>
   (\<forall>status output msg. validate_jvm_support (status, output) \<noteq> Inl (JavaCallError msg))"
proof
  show "validate_jvm_support (127, ''sh: java: command not found'' @ [CHR 0x0A])
     = Inl (JavaVersionParseError ''sh: java: command not found'')"
    by (simp add: validate_jvm_support_def validate_jvm_body_def subprocess_getoutput_def
        splitlines_def is_linebreak_def)
  show "\<forall>status output msg. validate_jvm_support (status, output) \<noteq> Inl (JavaCallError msg)"
  proof (intro allI notI)
    fix status :: int and out msg :: string
    assume a: "validate_jvm_support (status, out) = Inl (JavaCallError msg)"
    show False
    proof (cases "validate_jvm_body (status, out)")
      case (Inl e)
      from validate_jvm_body_errors [OF Inl] a Inl show False
        by (auto simp: validate_jvm_support_def)
    next
      case (Inr u)
      with a show False by (simp add: validate_jvm_support_def)
    qed
  qed
qed

section \<open>Verification: launching\<close>

lemma str_port: "str_int CONDUCTR_AKKA_REMOTING_PORT = ''9004''"
  by (simp add: CONDUCTR_AKKA_REMOTING_PORT_def str_int_def str_nat.simps digit_char_def)

lemma core_commands_Inr:
  "core_commands fmt dir addrs idx a = Inr cmds \<Longrightarrow>
     cmds = (if idx = 0 then [dir @ ''/bin/conductr'', ''-Dconductr.ip='' @ fmt a]
             else [dir @ ''/bin/conductr'', ''-Dconductr.ip='' @ fmt a,
                   ''--seed'', fmt (hd addrs) @ '':9004''])"
  by (cases addrs) (auto simp: core_commands_def py_index_def str_port split: if_splits)

lemma start_core_loop_log:
  "start_core_loop popen fmt dir addrs es pids w = Inr (pids', w') \<Longrightarrow>
     length pids' = length pids + length es \<and>
     w' = w @ map (\<lambda>(i, a).
            (if i = 0 then [dir @ ''/bin/conductr'', ''-Dconductr.ip='' @ fmt a]
             else [dir @ ''/bin/conductr'', ''-Dconductr.ip='' @ fmt a,
                   ''--seed'', fmt (hd addrs) @ '':9004''], dir)) es"
proof (induction es arbitrary: pids w)
  case Nil
  then show ?case by simp
next
  case (Cons e es)
  obtain i a where e: "e = (i, a)" by (cases e)
  from Cons.prems e obtain cmds where c: "core_commands fmt dir addrs i a = Inr cmds"
    by (auto split: sum.splits)
  from Cons.prems e c obtain pid where p: "popen w cmds dir = Some pid"
    and r: "start_core_loop popen fmt dir addrs es (pids @ [pid]) (w @ [(cmds, dir)]) = Inr (pids', w')"
    by (auto simp: Popen_def split: sum.splits option.splits)
  from Cons.IH [OF r] core_commands_Inr [OF c] e show ?case by simp
qed

lemma start_agent_loop_log:
  "start_agent_loop popen fmt dir es pids w = Inr (pids', w') \<Longrightarrow>
     length pids' = length pids + length es \<and>
     w' = w @ map (\<lambda>(i, a). ([dir @ ''/bin/conductr-agent'', ''-Dconductr.agent.ip='' @ fmt a,
                               ''--core-node'', fmt a @ '':9004''], dir)) es"
proof (induction es arbitrary: pids w)
  case Nil
  then show ?case by simp
next
  case (Cons e es)
  obtain i a where e: "e = (i, a)" by (cases e)
  from Cons.prems e obtain pid where p: "popen w (agent_commands fmt dir a) dir = Some pid"
    and r: "start_agent_loop popen fmt dir es (pids @ [pid]) (w @ [(agent_commands fmt dir a, dir)])
              = Inr (pids', w')"
    by (auto simp: Popen_def split: sum.splits option.splits)
  from Cons.IH [OF r] e show ?case by (simp add: agent_commands_def str_port)
qed

lemma map_snd_enumerate: "map (\<lambda>(i, a). f a) (enumerate n xs) = map f xs"
  by (induction xs arbitrary: n) auto

lemma seed_flag_not_executable: "''--seed'' \<noteq> x @ ''/bin/conductr''"
proof
  assume "''--seed'' = x @ ''/bin/conductr''"
  then have "last ''--seed'' = last (x @ ''/bin/conductr'')" by simp
  then show False by simp
qed

lemma ipv4_str_samples:
  "ipv4_str 3232268289 = ''192.168.128.1''" "ipv4_str 3232268290 = ''192.168.128.2''"
  "ipv4_str 3232268291 = ''192.168.128.3''" "ipv4_str 3232268292 = ''192.168.128.4''"
  "ipv4_str 4294967288 = ''255.255.255.248''" "ipv4_str 4294967292 = ''255.255.255.252''"
  by (simp_all add: ipv4_str_def str_nat.simps digit_char_def)

text \<open>When the operating system accepts every spawn, both launch loops return.\<close>

lemma start_core_loop_total:
  assumes "\<And>w c d. popen w c d \<noteq> None" and "\<And>i a. (i, a) \<in> set es \<Longrightarrow> 0 < i \<Longrightarrow> addrs \<noteq> []"
  shows "\<exists>r. start_core_loop popen fmt dir addrs es pids w = Inr r"
  using assms(2)
proof (induction es arbitrary: pids w)
  case Nil
  show ?case by simp
next
  case (Cons e es)
  obtain i a where e: "e = (i, a)" by (cases e)
  have "\<exists>cmds. core_commands fmt dir addrs i a = Inr cmds"
  proof (cases "0 < i")
    case True
    with Cons.prems [of i a] e have "addrs \<noteq> []" by simp
    with True show ?thesis by (cases addrs) (simp_all add: core_commands_def py_index_def)
  next
    case False
    then show ?thesis by (simp add: core_commands_def)
  qed
  then obtain cmds where c: "core_commands fmt dir addrs i a = Inr cmds" by blast
  from assms(1) [of w cmds dir] obtain pid where p: "popen w cmds dir = Some pid" by auto
  have "\<exists>r. start_core_loop popen fmt dir addrs es (pids @ [pid]) (w @ [(cmds, dir)]) = Inr r"
    by (rule Cons.IH) (use Cons.prems in auto)
  with e c p show ?case by (simp add: Popen_def)
qed

lemma start_core_instances_total:
  assumes "\<And>w c d. popen w c d \<noteq> None"
  shows "\<exists>r. start_core_instances popen fmt dir addrs w = Inr r"
  unfolding start_core_instances_def
  by (rule start_core_loop_total [OF assms]) (auto simp: in_set_enumerate_eq)

lemma start_agent_loop_total:
  assumes "\<And>w c d. popen w c d \<noteq> None"
  shows "\<exists>r. start_agent_loop popen fmt dir es pids w = Inr r"
proof (induction es arbitrary: pids w)
  case Nil
  show ?case by simp
next
  case (Cons e es)
  obtain i a where e: "e = (i, a)" by (cases e)
  from assms [of w "agent_commands fmt dir a" dir] obtain pid where
    p: "popen w (agent_commands fmt dir a) dir = Some pid" by auto
  from Cons.IH [of "pids @ [pid]" "w @ [(agent_commands fmt dir a, dir)]"] e p
  show ?case by (simp add: Popen_def)
qed

lemma start_agent_instances_total:
  assumes "\<And>w c d. popen w c d \<noteq> None"
  shows "\<exists>r. start_agent_instances popen fmt dir addrs w = Inr r"
  unfolding start_agent_instances_def by (rule start_agent_loop_total [OF assms])

text \<open>
  C1: whenever the launches succeed, the core instances are started, in the order of the
  addresses, instance 0 without \<open>--seed\<close> and every instance at an index above 0 with
  \<open>--seed\<close> followed by \<open>addrs[0]:9004\<close>; every agent instance, the first included, is started
  with \<open>--core-node\<close> followed by its own address and \<open>:9004\<close>. One process is started for
  each address.
\<close>

theorem launch_flags:
  assumes "start_core_instances popen fmt cdir addrs w = Inr (cpids, w1)"
    and "start_agent_instances popen fmt adir agent_addrs w1 = Inr (apids, w2)"
  shows "length cpids = length addrs \<and> length apids = length agent_addrs \<and>
    w1 = w @ map (\<lambda>(i, a).
            (if i = 0 then [cdir @ ''/bin/conductr'', ''-Dconductr.ip='' @ fmt a]
             else [cdir @ ''/bin/conductr'', ''-Dconductr.ip='' @ fmt a,
                   ''--seed'', fmt (hd addrs) @ '':9004''], cdir)) (enumerate 0 addrs) \<and>
    (\<forall>a. ''--seed'' \<notin> set [cdir @ ''/bin/conductr'', ''-Dconductr.ip='' @ fmt a]) \<and>
    w2 = w1 @ map (\<lambda>a. ([adir @ ''/bin/conductr-agent'', ''-Dconductr.agent.ip='' @ fmt a,
                          ''--core-node'', fmt a @ '':9004''], adir)) agent_addrs"
  using start_core_loop_log [OF assms(1) [unfolded start_core_instances_def]]
    start_agent_loop_log [OF assms(2) [unfolded start_agent_instances_def]]
  by (simp add: map_snd_enumerate seed_flag_not_executable)

theorem launch_flags_witness:
  "start_core_instances numbered_pids ipv4_str ''/images/core'' [3232268289, 3232268290] []
     = Inr ([1000, 1001],
         [([''/images/core/bin/conductr'', ''-Dconductr.ip=192.168.128.1''], ''/images/core''),
          ([''/images/core/bin/conductr'', ''-Dconductr.ip=192.168.128.2'',
            ''--seed'', ''192.168.128.1:9004''], ''/images/core'')]) \<and>
   start_agent_instances numbered_pids ipv4_str ''/images/agent'' [3232268289]
       [([''/images/core/bin/conductr'', ''-Dconductr.ip=192.168.128.1''], ''/images/core''),
        ([''/images/core/bin/conductr'', ''-Dconductr.ip=192.168.128.2'',
          ''--seed'', ''192.168.128.1:9004''], ''/images/core'')]
     = Inr ([1002],
         [([''/images/core/bin/conductr'', ''-Dconductr.ip=192.168.128.1''], ''/images/core''),
          ([''/images/core/bin/conductr'', ''-Dconductr.ip=192.168.128.2'',
            ''--seed'', ''192.168.128.1:9004''], ''/images/core''),
          ([''/images/agent/bin/conductr-agent'', ''-Dconductr.agent.ip=192.168.128.1'',
            ''--core-node'', ''192.168.128.1:9004''], ''/images/agent'')]) \<and>
   length [1000, 1001 :: int] = length [3232268289, 3232268290 :: nat] \<and>
   ''--seed'' \<notin> set [''/images/core/bin/conductr'', ''-Dconductr.ip=192.168.128.1'']"
proof -
  have h1: "start_core_instances numbered_pids ipv4_str ''/images/core'' [3232268289, 3232268290] []
     = Inr ([1000, 1001],
         [([''/images/core/bin/conductr'', ''-Dconductr.ip=192.168.128.1''], ''/images/core''),
          ([''/images/core/bin/conductr'', ''-Dconductr.ip=192.168.128.2'',
            ''--seed'', ''192.168.128.1:9004''], ''/images/core'')])"
    by (simp add: start_core_instances_def enumerate_simps core_commands_def Popen_def
        py_index_def str_port numbered_pids_def ipv4_str_samples)
  have h2: "start_agent_instances numbered_pids ipv4_str ''/images/agent'' [3232268289]
       [([''/images/core/bin/conductr'', ''-Dconductr.ip=192.168.128.1''], ''/images/core''),
        ([''/images/core/bin/conductr'', ''-Dconductr.ip=192.168.128.2'',
          ''--seed'', ''192.168.128.1:9004''], ''/images/core'')]
     = Inr ([1002],
         [([''/images/core/bin/conductr'', ''-Dconductr.ip=192.168.128.1''], ''/images/core''),
          ([''/images/core/bin/conductr'', ''-Dconductr.ip=192.168.128.2'',
            ''--seed'', ''192.168.128.1:9004''], ''/images/core''),
          ([''/images/agent/bin/conductr-agent'', ''-Dconductr.agent.ip=192.168.128.1'',
            ''--core-node'', ''192.168.128.1:9004''], ''/images/agent'')])"
    by (simp add: start_agent_instances_def enumerate_simps agent_commands_def Popen_def
        str_port numbered_pids_def ipv4_str_samples)
  from launch_flags [OF h1 h2] have "length [1000, 1001 :: int] = length [3232268289, 3232268290 :: nat]"
    and "''--seed'' \<notin> set [''/images/core/bin/conductr'', ''-Dconductr.ip=192.168.128.1'']"
    by (simp_all add: ipv4_str_samples)
  with h1 h2 show ?thesis by (intro conjI)
qed

section \<open>Verification: bind addresses\<close>

lemma find_bind_loop_shape:
  "find_bind_loop cb k hs tb un pr = (tb', un', pr') \<Longrightarrow>
     \<exists>n \<le> length hs.
       pr' = pr @ map (\<lambda>a. (a, BIND_TEST_PORT)) (take n hs) \<and>
       tb' = tb @ filter (\<lambda>a. cb a BIND_TEST_PORT) (take n hs) \<and>
       un' = un @ filter (\<lambda>a. \<not> cb a BIND_TEST_PORT) (take n hs) \<and>
       (int (length tb') < k \<longrightarrow> n = length hs) \<and>
       (int (length tb) < k \<longrightarrow> k \<le> int (length tb') \<longrightarrow>
          int (length tb') = k \<and> 0 < n \<and> cb (hs ! (n - 1)) BIND_TEST_PORT)"
proof (induction hs arbitrary: tb un pr)
  case Nil
  then show ?case by auto
next
  case (Cons a hs)
  let ?ok = "cb a BIND_TEST_PORT"
  let ?tb1 = "if ?ok then tb @ [a] else tb"
  let ?un1 = "if ?ok then un else un @ [a]"
  let ?pr1 = "pr @ [(a, BIND_TEST_PORT)]"
  show ?case
  proof (cases "k \<le> int (length ?tb1)")
    case True
    with Cons.prems have r: "tb' = ?tb1" "un' = ?un1" "pr' = ?pr1"
      by (simp_all add: Let_def split: if_splits)
    show ?thesis
    proof (intro exI [of _ 1] conjI)
      show "(1::nat) \<le> length (a # hs)" by simp
      show "pr' = pr @ map (\<lambda>a. (a, BIND_TEST_PORT)) (take 1 (a # hs))"
        using r by simp
      show "tb' = tb @ filter (\<lambda>a. cb a BIND_TEST_PORT) (take 1 (a # hs))"
        using r by simp
      show "un' = un @ filter (\<lambda>a. \<not> cb a BIND_TEST_PORT) (take 1 (a # hs))"
        using r by simp
      show "int (length tb') < k \<longrightarrow> (1::nat) = length (a # hs)"
        using True r by simp
      show "int (length tb) < k \<longrightarrow> k \<le> int (length tb') \<longrightarrow>
          int (length tb') = k \<and> 0 < (1::nat) \<and> cb ((a # hs) ! (1 - 1)) BIND_TEST_PORT"
      proof (cases "cb a BIND_TEST_PORT")
        case True
        with r show ?thesis by simp
      next
        case False
        with r show ?thesis by simp
      qed
    qed
  next
    case False
    with Cons.prems have "find_bind_loop cb k hs ?tb1 ?un1 ?pr1 = (tb', un', pr')"
      by (simp add: Let_def split: if_splits)
    from Cons.IH [OF this] have "\<exists>n\<le>length hs.
       pr' = ?pr1 @ map (\<lambda>a. (a, BIND_TEST_PORT)) (take n hs) \<and>
       tb' = ?tb1 @ filter (\<lambda>a. cb a BIND_TEST_PORT) (take n hs) \<and>
       un' = ?un1 @ filter (\<lambda>a. \<not> cb a BIND_TEST_PORT) (take n hs) \<and>
       (int (length tb') < k \<longrightarrow> n = length hs) \<and>
       (int (length ?tb1) < k \<longrightarrow> k \<le> int (length tb') \<longrightarrow>
          int (length tb') = k \<and> 0 < n \<and> cb (hs ! (n - 1)) BIND_TEST_PORT)" .
    then obtain n where n: "n \<le> length hs"
      and p: "pr' = ?pr1 @ map (\<lambda>a. (a, BIND_TEST_PORT)) (take n hs)"
      and t: "tb' = ?tb1 @ filter (\<lambda>a. cb a BIND_TEST_PORT) (take n hs)"
      and u: "un' = ?un1 @ filter (\<lambda>a. \<not> cb a BIND_TEST_PORT) (take n hs)"
      and f: "int (length tb') < k \<longrightarrow> n = length hs"
      and g: "int (length ?tb1) < k \<longrightarrow> k \<le> int (length tb') \<longrightarrow>
          int (length tb') = k \<and> 0 < n \<and> cb (hs ! (n - 1)) BIND_TEST_PORT"
      by (elim exE conjE)
    show ?thesis
    proof (intro exI [of _ "Suc n"] conjI)
      show "Suc n \<le> length (a # hs)" using n by simp
      show "pr' = pr @ map (\<lambda>a. (a, BIND_TEST_PORT)) (take (Suc n) (a # hs))"
        using p by simp
      show "tb' = tb @ filter (\<lambda>a. cb a BIND_TEST_PORT) (take (Suc n) (a # hs))"
        using t by simp
      show "un' = un @ filter (\<lambda>a. \<not> cb a BIND_TEST_PORT) (take (Suc n) (a # hs))"
        using u by simp
      show "int (length tb') < k \<longrightarrow> Suc n = length (a # hs)"
        using f by simp
      show "int (length tb) < k \<longrightarrow> k \<le> int (length tb') \<longrightarrow>
          int (length tb') = k \<and> 0 < Suc n \<and> cb ((a # hs) ! (Suc n - 1)) BIND_TEST_PORT"
      proof (intro impI)
        assume "k \<le> int (length tb')"
        with g False have "int (length tb') = k \<and> 0 < n \<and> cb (hs ! (n - 1)) BIND_TEST_PORT"
          by simp
        then show "int (length tb') = k \<and> 0 < Suc n \<and> cb ((a # hs) ! (Suc n - 1)) BIND_TEST_PORT"
          by (cases n) simp_all
      qed
    qed
  qed
qed

lemma find_bind_loop_init:
  "find_bind_loop cb k hs [] [] [] = (tb', un', pr') \<Longrightarrow>
     \<exists>n \<le> length hs.
       pr' = map (\<lambda>a. (a, BIND_TEST_PORT)) (take n hs) \<and>
       tb' = filter (\<lambda>a. cb a BIND_TEST_PORT) (take n hs) \<and>
       un' = filter (\<lambda>a. \<not> cb a BIND_TEST_PORT) (take n hs) \<and>
       (int (length tb') < k \<longrightarrow> n = length hs) \<and>
       (0 < k \<longrightarrow> k \<le> int (length tb') \<longrightarrow>
          int (length tb') = k \<and> 0 < n \<and> cb (hs ! (n - 1)) BIND_TEST_PORT)"
  using find_bind_loop_shape [of cb k hs "[]" "[]" "[]" tb' un' pr'] by simp

lemma find_bind_addrs_shape:
  assumes "find_bind_addrs cb alias k r = (res, probes)"
  shows "\<exists>n \<le> length (hosts r).
    probes = map (\<lambda>a. (a, BIND_TEST_PORT)) (take n (hosts r)) \<and>
    (int (length (filter (\<lambda>a. cb a BIND_TEST_PORT) (take n (hosts r)))) < k \<longrightarrow>
           n = length (hosts r) \<and>
           res = Inl (BindAddressNotFoundError (addr_alias_setup_instructions alias
             (py_slice0 (filter (\<lambda>a. \<not> cb a BIND_TEST_PORT) (hosts r))
                (k - int (length (filter (\<lambda>a. cb a BIND_TEST_PORT) (hosts r))))) (netmask r)))) \<and>
    (k \<le> int (length (filter (\<lambda>a. cb a BIND_TEST_PORT) (take n (hosts r)))) \<longrightarrow>
           res = Inr (filter (\<lambda>a. cb a BIND_TEST_PORT) (take n (hosts r)))) \<and>
    (0 < k \<longrightarrow> k \<le> int (length (filter (\<lambda>a. cb a BIND_TEST_PORT) (take n (hosts r)))) \<longrightarrow>
           int (length (filter (\<lambda>a. cb a BIND_TEST_PORT) (take n (hosts r)))) = k \<and> 0 < n \<and>
           cb (hosts r ! (n - 1)) BIND_TEST_PORT)"
proof -
  obtain tb un pr where l: "find_bind_loop cb k (hosts r) [] [] [] = (tb, un, pr)"
    by (cases "find_bind_loop cb k (hosts r) [] [] []") auto
  from find_bind_loop_init [OF l] obtain n where n: "n \<le> length (hosts r)"
    and p: "pr = map (\<lambda>a. (a, BIND_TEST_PORT)) (take n (hosts r))"
    and t: "tb = filter (\<lambda>a. cb a BIND_TEST_PORT) (take n (hosts r))"
    and u: "un = filter (\<lambda>a. \<not> cb a BIND_TEST_PORT) (take n (hosts r))"
    and f: "int (length tb) < k \<longrightarrow> n = length (hosts r)"
    and g: "0 < k \<longrightarrow> k \<le> int (length tb) \<longrightarrow>
          int (length tb) = k \<and> 0 < n \<and> cb (hosts r ! (n - 1)) BIND_TEST_PORT"
    by blast
  have fb: "find_bind_addrs cb alias k r =
      (if int (length tb) < k
        then (Inl (BindAddressNotFoundError (addr_alias_setup_instructions alias
               (py_slice0 un (k - int (length tb))) (netmask r))), pr)
        else (Inr tb, pr))"
    by (simp add: find_bind_addrs_def l Let_def)
  show ?thesis
  proof (intro exI [of _ n] conjI)
    show "n \<le> length (hosts r)" by (rule n)
    show "probes = map (\<lambda>a. (a, BIND_TEST_PORT)) (take n (hosts r))"
    proof (cases "int (length tb) < k")
      case True
      with fb assms have "probes = pr" by simp
      then show ?thesis by (simp only: p)
    next
      case False
      with fb assms have "probes = pr" by simp
      then show ?thesis by (simp only: p)
    qed
    show "int (length (filter (\<lambda>a. cb a BIND_TEST_PORT) (take n (hosts r)))) < k \<longrightarrow>
           n = length (hosts r) \<and>
           res = Inl (BindAddressNotFoundError (addr_alias_setup_instructions alias
             (py_slice0 (filter (\<lambda>a. \<not> cb a BIND_TEST_PORT) (hosts r))
                (k - int (length (filter (\<lambda>a. cb a BIND_TEST_PORT) (hosts r))))) (netmask r)))"
    proof (rule impI)
      assume a: "int (length (filter (\<lambda>a. cb a BIND_TEST_PORT) (take n (hosts r)))) < k"
      from a have lt: "int (length tb) < k" by (simp only: t)
      with f have nn: "n = length (hosts r)" by blast
      from lt fb assms have "res = Inl (BindAddressNotFoundError (addr_alias_setup_instructions alias
               (py_slice0 un (k - int (length tb))) (netmask r)))" by simp
      then have "res = Inl (BindAddressNotFoundError (addr_alias_setup_instructions alias
             (py_slice0 (filter (\<lambda>a. \<not> cb a BIND_TEST_PORT) (take n (hosts r)))
                (k - int (length (filter (\<lambda>a. cb a BIND_TEST_PORT) (take n (hosts r)))))) (netmask r)))"
        by (simp only: t u)
      then show "n = length (hosts r) \<and>
           res = Inl (BindAddressNotFoundError (addr_alias_setup_instructions alias
             (py_slice0 (filter (\<lambda>a. \<not> cb a BIND_TEST_PORT) (hosts r))
                (k - int (length (filter (\<lambda>a. cb a BIND_TEST_PORT) (hosts r))))) (netmask r)))"
        unfolding nn by simp
    qed
    show "k \<le> int (length (filter (\<lambda>a. cb a BIND_TEST_PORT) (take n (hosts r)))) \<longrightarrow>
           res = Inr (filter (\<lambda>a. cb a BIND_TEST_PORT) (take n (hosts r)))"
    proof (rule impI)
      assume a: "k \<le> int (length (filter (\<lambda>a. cb a BIND_TEST_PORT) (take n (hosts r))))"
      from a have "\<not> int (length tb) < k" by (simp only: t not_less)
      with fb assms have "res = Inr tb" by simp
      then show "res = Inr (filter (\<lambda>a. cb a BIND_TEST_PORT) (take n (hosts r)))" by (simp only: t)
    qed
    show "0 < k \<longrightarrow> k \<le> int (length (filter (\<lambda>a. cb a BIND_TEST_PORT) (take n (hosts r)))) \<longrightarrow>
           int (length (filter (\<lambda>a. cb a BIND_TEST_PORT) (take n (hosts r)))) = k \<and> 0 < n \<and>
           cb (hosts r ! (n - 1)) BIND_TEST_PORT"
      using g by (simp only: t)
  qed
qed

lemma py_slice0_take: "0 \<le> n \<Longrightarrow> py_slice0 xs n = take (nat n) xs"
  by (simp add: py_slice0_def)

lemma length_filter_partition:
  "length (filter P xs) + length (filter (\<lambda>a. \<not> P a) xs) = length xs"
  by (induction xs) auto

text \<open>
  C4, amended: for every count \<open>k\<close> of at least 1, when the allocation succeeds it returns
  exactly \<open>k\<close> addresses, taken from the host enumeration in its order (ascending when the
  enumeration is), each probed on the test port and found bindable; the probes are a
  prefix of the enumeration that ends with the \<open>k\<close>-th bindable address, so no address
  after it is probed.
\<close>

theorem find_bind_addrs_success:
  assumes "1 \<le> k" and "find_bind_addrs cb alias k r = (Inr addrs, probes)"
  shows "int (length addrs) = k \<and>
    subseq addrs (hosts r) \<and>
    (sorted_wrt less (hosts r) \<longrightarrow> sorted_wrt less addrs) \<and>
    (\<forall>a \<in> set addrs. cb a BIND_TEST_PORT \<and> (a, BIND_TEST_PORT) \<in> set probes) \<and>
    prefix (map fst probes) (hosts r) \<and>
    (\<forall>p \<in> set probes. snd p = BIND_TEST_PORT) \<and>
    addrs = filter (\<lambda>a. cb a BIND_TEST_PORT) (map fst probes) \<and>
    probes \<noteq> [] \<and> fst (last probes) = last addrs"
proof -
  let ?P = "\<lambda>a. cb a BIND_TEST_PORT"
  from find_bind_addrs_shape [OF assms(2)] obtain n where n: "n \<le> length (hosts r)"
    and p: "probes = map (\<lambda>a. (a, BIND_TEST_PORT)) (take n (hosts r))"
    and lo: "int (length (filter ?P (take n (hosts r)))) < k \<longrightarrow>
           n = length (hosts r) \<and>
           Inr addrs = Inl (BindAddressNotFoundError (addr_alias_setup_instructions alias
             (py_slice0 (filter (\<lambda>a. \<not> cb a BIND_TEST_PORT) (hosts r))
                (k - int (length (filter ?P (hosts r))))) (netmask r)))"
    and hi: "k \<le> int (length (filter ?P (take n (hosts r)))) \<longrightarrow>
           Inr addrs = Inr (filter ?P (take n (hosts r)))"
    and ex: "0 < k \<longrightarrow> k \<le> int (length (filter ?P (take n (hosts r)))) \<longrightarrow>
           int (length (filter ?P (take n (hosts r)))) = k \<and> 0 < n \<and> cb (hosts r ! (n - 1)) BIND_TEST_PORT"
    by blast
  have ge: "k \<le> int (length (filter ?P (take n (hosts r))))"
  proof (rule ccontr)
    assume "\<not> k \<le> int (length (filter ?P (take n (hosts r))))"
    then have "int (length (filter ?P (take n (hosts r)))) < k" by simp
    with lo show False by simp
  qed
  from hi ge have a: "addrs = filter ?P (take n (hosts r))" by simp
  from assms(1) have "0 < k" by simp
  with ex ge have "int (length (filter ?P (take n (hosts r)))) = k \<and> 0 < n \<and> cb (hosts r ! (n - 1)) BIND_TEST_PORT"
    by blast
  then have len: "int (length addrs) = k" and n0: "0 < n"
    and lastok: "cb (hosts r ! (n - 1)) BIND_TEST_PORT"
    by (simp_all only: a)
  have mp: "map fst probes = take n (hosts r)"
    by (simp add: p comp_def)
  from n n0 have tk: "take n (hosts r) = take (n - 1) (hosts r) @ [hosts r ! (n - 1)]"
    by (cases n) (simp_all add: take_Suc_conv_app_nth)
  have 1: "subseq addrs (hosts r)"
    unfolding a by (rule subseq_order.trans [OF subseq_filter_left]) (rule prefix_imp_subseq [OF take_is_prefix])
  have 2: "sorted_wrt less (hosts r) \<longrightarrow> sorted_wrt less addrs"
    unfolding a by (auto intro: sorted_wrt_filter sorted_wrt_take)
  have 3: "\<forall>a \<in> set addrs. cb a BIND_TEST_PORT \<and> (a, BIND_TEST_PORT) \<in> set probes"
    unfolding a p by auto
  have 4: "prefix (map fst probes) (hosts r)"
    unfolding mp by (rule take_is_prefix)
  have 5: "\<forall>p \<in> set probes. snd p = BIND_TEST_PORT"
    unfolding p by auto
  have 6: "addrs = filter ?P (map fst probes)"
    unfolding mp by (rule a)
  have 7: "probes \<noteq> []"
    using n n0 unfolding p by (cases "hosts r") auto
  have "last (take n (hosts r)) = hosts r ! (n - 1)"
    by (subst tk) simp
  moreover have "last addrs = hosts r ! (n - 1)"
    unfolding a using lastok by (subst tk) simp
  moreover have "fst (last probes) = last (map fst probes)"
    using 7 by (simp add: last_map)
  ultimately have 8: "fst (last probes) = last addrs"
    by (simp add: mp)
  from len 1 2 3 4 5 6 7 8 show ?thesis by (intro conjI)
qed

theorem find_bind_addrs_success_witness:
  "(1::int) \<le> 2 \<and>
   find_bind_addrs (bindable_in [3232268289, 3232268291, 3232268292]) ifconfig_alias 2 net_29
     = (Inr [3232268289, 3232268291],
        [(3232268289, 19991), (3232268290, 19991), (3232268291, 19991)]) \<and>
   int (length [3232268289, 3232268291 :: nat]) = 2 \<and>
   fst (last [(3232268289 :: nat, 19991 :: int), (3232268290, 19991), (3232268291, 19991)])
     = last [3232268289, 3232268291]"
proof -
  have h1: "(1::int) \<le> 2" by simp
  have h2: "find_bind_addrs (bindable_in [3232268289, 3232268291, 3232268292]) ifconfig_alias 2 net_29
     = (Inr [3232268289, 3232268291],
        [(3232268289, 19991), (3232268290, 19991), (3232268291, 19991)])"
    by (simp add: find_bind_addrs_def net_29_def bindable_in_def BIND_TEST_PORT_def)
  note t = find_bind_addrs_success [OF h1 h2]
  from t have c: "int (length [3232268289, 3232268291 :: nat]) = 2"
    by (rule conjunct1)
  from t have d: "fst (last [(3232268289 :: nat, 19991 :: int), (3232268290, 19991), (3232268291, 19991)])
     = last [3232268289, 3232268291]"
    by blast
  from h1 h2 c d show ?thesis by (intro conjI)
qed

text \<open>
  The claim as stated, for every count: with the count 0 the first host is still probed,
  and when it is bindable one address is returned, not none.
\<close>

theorem find_bind_addrs_zero_counterexample:
  "find_bind_addrs (bindable_in [3232268289, 3232268290]) ifconfig_alias 0 net_30
     = (Inr [3232268289], [(3232268289, 19991)]) \<and> int (length [3232268289 :: nat]) \<noteq> 0"
  by (simp add: find_bind_addrs_def net_30_def bindable_in_def BIND_TEST_PORT_def)

lemma length_filter_take: "length (filter P (take n xs)) \<le> length (filter P xs)"
proof -
  have "length (filter P xs) = length (filter P (take n xs @ drop n xs))" by simp
  also have "\<dots> = length (filter P (take n xs)) + length (filter P (drop n xs))"
    by (simp only: filter_append length_append)
  finally show ?thesis by simp
qed

text \<open>
  A failure of the allocation is a \<open>BindAddressNotFoundError\<close>, and it happens only when
  fewer than \<open>k\<close> addresses of the range are bindable.
\<close>

lemma find_bind_addrs_fails_only_if:
  assumes "find_bind_addrs cb alias k r = (Inl e, probes)"
  shows "\<exists>ins. e = BindAddressNotFoundError ins \<and>
    int (length (filter (\<lambda>a. cb a BIND_TEST_PORT) (hosts r))) < k \<and>
    map fst probes = hosts r \<and>
    ins = map (\<lambda>a. alias a (netmask r))
            (take (nat (k - int (length (filter (\<lambda>a. cb a BIND_TEST_PORT) (hosts r)))))
               (filter (\<lambda>a. \<not> cb a BIND_TEST_PORT) (hosts r))) \<and>
    int (length ins) = min (k - int (length (filter (\<lambda>a. cb a BIND_TEST_PORT) (hosts r))))
                           (int (length (filter (\<lambda>a. \<not> cb a BIND_TEST_PORT) (hosts r)))) \<and>
    (k \<le> int (length (hosts r)) \<longrightarrow>
       int (length ins) = k - int (length (filter (\<lambda>a. cb a BIND_TEST_PORT) (hosts r)))) \<and>
    (int (length (hosts r)) < k \<longrightarrow>
       int (length ins) = int (length (hosts r)) - int (length (filter (\<lambda>a. cb a BIND_TEST_PORT) (hosts r))))"
proof -
  let ?P = "\<lambda>a. cb a BIND_TEST_PORT"
  let ?B = "filter ?P (hosts r)"
  let ?U = "filter (\<lambda>a. \<not> cb a BIND_TEST_PORT) (hosts r)"
  from find_bind_addrs_shape [OF assms] obtain n where n: "n \<le> length (hosts r)"
    and p: "probes = map (\<lambda>a. (a, BIND_TEST_PORT)) (take n (hosts r))"
    and lo: "int (length (filter ?P (take n (hosts r)))) < k \<longrightarrow>
           n = length (hosts r) \<and>
           Inl e = Inl (BindAddressNotFoundError (addr_alias_setup_instructions alias
             (py_slice0 ?U (k - int (length ?B))) (netmask r)))"
    and hi: "k \<le> int (length (filter ?P (take n (hosts r)))) \<longrightarrow>
           Inl e = Inr (filter ?P (take n (hosts r)))"
    by blast
  have lt: "int (length (filter ?P (take n (hosts r)))) < k"
  proof (rule ccontr)
    assume "\<not> int (length (filter ?P (take n (hosts r)))) < k"
    then have "k \<le> int (length (filter ?P (take n (hosts r))))" by simp
    with hi show False by simp
  qed
  from lo lt have nn: "n = length (hosts r)"
    and e: "e = BindAddressNotFoundError (addr_alias_setup_instructions alias
             (py_slice0 ?U (k - int (length ?B))) (netmask r))"
    by simp_all
  from lt have short: "int (length ?B) < k" unfolding nn by simp
  let ?ins = "map (\<lambda>a. alias a (netmask r)) (take (nat (k - int (length ?B))) ?U)"
  have e': "e = BindAddressNotFoundError ?ins"
    using short by (simp add: e addr_alias_setup_instructions_def py_slice0_take)
  have mp: "map fst probes = hosts r"
    by (simp add: p nn comp_def)
  have part: "int (length ?B) + int (length ?U) = int (length (hosts r))"
    using length_filter_partition [of ?P "hosts r"] by linarith
  have len: "int (length ?ins) = min (k - int (length ?B)) (int (length ?U))"
    using short by simp
  have c1: "k \<le> int (length (hosts r)) \<longrightarrow> int (length ?ins) = k - int (length ?B)"
    using len part by linarith
  have c2: "int (length (hosts r)) < k \<longrightarrow> int (length ?ins) = int (length (hosts r)) - int (length ?B)"
    using len part by linarith
  from e' short mp len c1 c2 show ?thesis by (intro exI [of _ ?ins] conjI) simp_all
qed

text \<open>
  C5, amended: when fewer than \<open>k\<close> addresses of the range are bindable, every host of the
  range has been probed and the allocation fails with \<open>BindAddressNotFoundError\<close>; its
  instructions are made from the netmask and the first rejected addresses, as many as
  the shortfall when the range has that many rejected addresses, which is the case when
  the range has at least \<open>k\<close> hosts, and all the rejected addresses otherwise.
\<close>

theorem find_bind_addrs_failure:
  assumes "int (length (filter (\<lambda>a. cb a BIND_TEST_PORT) (hosts r))) < k"
  shows "\<exists>ins.
    find_bind_addrs cb alias k r
      = (Inl (BindAddressNotFoundError ins), map (\<lambda>a. (a, BIND_TEST_PORT)) (hosts r)) \<and>
    ins = map (\<lambda>a. alias a (netmask r))
            (take (nat (k - int (length (filter (\<lambda>a. cb a BIND_TEST_PORT) (hosts r)))))
               (filter (\<lambda>a. \<not> cb a BIND_TEST_PORT) (hosts r))) \<and>
    int (length ins) = min (k - int (length (filter (\<lambda>a. cb a BIND_TEST_PORT) (hosts r))))
                           (int (length (filter (\<lambda>a. \<not> cb a BIND_TEST_PORT) (hosts r)))) \<and>
    (k \<le> int (length (hosts r)) \<longrightarrow>
       int (length ins) = k - int (length (filter (\<lambda>a. cb a BIND_TEST_PORT) (hosts r)))) \<and>
    (int (length (hosts r)) < k \<longrightarrow>
       int (length ins) = int (length (hosts r)) - int (length (filter (\<lambda>a. cb a BIND_TEST_PORT) (hosts r))))"
proof -
  let ?P = "\<lambda>a. cb a BIND_TEST_PORT"
  let ?B = "filter ?P (hosts r)"
  let ?U = "filter (\<lambda>a. \<not> cb a BIND_TEST_PORT) (hosts r)"
  obtain res probes where fb: "find_bind_addrs cb alias k r = (res, probes)"
    by (cases "find_bind_addrs cb alias k r") auto
  from find_bind_addrs_shape [OF fb] obtain n where
    p: "probes = map (\<lambda>a. (a, BIND_TEST_PORT)) (take n (hosts r))"
    and lo: "int (length (filter ?P (take n (hosts r)))) < k \<longrightarrow>
           n = length (hosts r) \<and>
           res = Inl (BindAddressNotFoundError (addr_alias_setup_instructions alias
             (py_slice0 ?U (k - int (length ?B))) (netmask r)))"
    by blast
  have "int (length (filter ?P (take n (hosts r)))) \<le> int (length ?B)"
    using length_filter_take [of ?P n "hosts r"] by simp
  with assms have "int (length (filter ?P (take n (hosts r)))) < k" by linarith
  with lo have nn: "n = length (hosts r)"
    and res: "res = Inl (BindAddressNotFoundError (addr_alias_setup_instructions alias
             (py_slice0 ?U (k - int (length ?B))) (netmask r)))"
    by blast+
  let ?ins = "map (\<lambda>a. alias a (netmask r)) (take (nat (k - int (length ?B))) ?U)"
  have res': "res = Inl (BindAddressNotFoundError ?ins)"
    using assms by (simp add: res addr_alias_setup_instructions_def py_slice0_take)
  have pr: "probes = map (\<lambda>a. (a, BIND_TEST_PORT)) (hosts r)"
    by (simp add: p nn)
  have eq: "find_bind_addrs cb alias k r
      = (Inl (BindAddressNotFoundError ?ins), map (\<lambda>a. (a, BIND_TEST_PORT)) (hosts r))"
    by (simp only: fb res' pr)
  have part: "int (length ?B) + int (length ?U) = int (length (hosts r))"
    using length_filter_partition [of ?P "hosts r"] by linarith
  have len: "int (length ?ins) = min (k - int (length ?B)) (int (length ?U))"
    using assms by simp
  have c1: "k \<le> int (length (hosts r)) \<longrightarrow> int (length ?ins) = k - int (length ?B)"
    using len part by linarith
  have c2: "int (length (hosts r)) < k \<longrightarrow> int (length ?ins) = int (length (hosts r)) - int (length ?B)"
    using len part by linarith
  from eq len c1 c2 show ?thesis by (intro exI [of _ ?ins] conjI) simp_all
qed

theorem find_bind_addrs_failure_witness:
  "int (length (filter (\<lambda>a. bindable_in [3232268289] a BIND_TEST_PORT) (hosts net_29))) < 3 \<and>
   find_bind_addrs (bindable_in [3232268289]) ifconfig_alias 3 net_29
     = (Inl (BindAddressNotFoundError
               [''sudo ifconfig lo0 alias 192.168.128.2 255.255.255.248'',
                ''sudo ifconfig lo0 alias 192.168.128.3 255.255.255.248'']),
        [(3232268289, 19991), (3232268290, 19991), (3232268291, 19991),
         (3232268292, 19991), (3232268293, 19991), (3232268294, 19991)]) \<and>
   int (length [''sudo ifconfig lo0 alias 192.168.128.2 255.255.255.248'',
                ''sudo ifconfig lo0 alias 192.168.128.3 255.255.255.248'']) = 3 - 1"
proof -
  have h: "int (length (filter (\<lambda>a. bindable_in [3232268289] a BIND_TEST_PORT) (hosts net_29))) < 3"
    by (simp add: net_29_def bindable_in_def)
  from find_bind_addrs_failure [of "bindable_in [3232268289]" net_29 3 ifconfig_alias, OF h]
  obtain ins where
    e: "find_bind_addrs (bindable_in [3232268289]) ifconfig_alias 3 net_29
      = (Inl (BindAddressNotFoundError ins), map (\<lambda>a. (a, BIND_TEST_PORT)) (hosts net_29))"
    and i: "ins = map (\<lambda>a. ifconfig_alias a (netmask net_29))
            (take (nat (3 - int (length (filter (\<lambda>a. bindable_in [3232268289] a BIND_TEST_PORT) (hosts net_29)))))
               (filter (\<lambda>a. \<not> bindable_in [3232268289] a BIND_TEST_PORT) (hosts net_29)))"
    and l: "3 \<le> int (length (hosts net_29)) \<longrightarrow>
       int (length ins) = 3 - int (length (filter (\<lambda>a. bindable_in [3232268289] a BIND_TEST_PORT) (hosts net_29)))"
    by blast
  from i have i': "ins = [''sudo ifconfig lo0 alias 192.168.128.2 255.255.255.248'',
                ''sudo ifconfig lo0 alias 192.168.128.3 255.255.255.248'']"
    by (simp add: net_29_def bindable_in_def ifconfig_alias_def ipv4_str_samples)
  have pm: "map (\<lambda>a. (a, BIND_TEST_PORT)) (hosts net_29)
      = [(3232268289, 19991), (3232268290, 19991), (3232268291, 19991),
         (3232268292, 19991), (3232268293, 19991), (3232268294, 19991)]"
    by (simp add: net_29_def BIND_TEST_PORT_def)
  from e have r: "find_bind_addrs (bindable_in [3232268289]) ifconfig_alias 3 net_29
     = (Inl (BindAddressNotFoundError
               [''sudo ifconfig lo0 alias 192.168.128.2 255.255.255.248'',
                ''sudo ifconfig lo0 alias 192.168.128.3 255.255.255.248'']),
        [(3232268289, 19991), (3232268290, 19991), (3232268291, 19991),
         (3232268292, 19991), (3232268293, 19991), (3232268294, 19991)])"
    by (simp only: i' pm)
  from l have "int (length ins) = 3 - 1"
    by (simp add: net_29_def bindable_in_def)
  then have n: "int (length [''sudo ifconfig lo0 alias 192.168.128.2 255.255.255.248'',
                ''sudo ifconfig lo0 alias 192.168.128.3 255.255.255.248'']) = 3 - 1"
    by (simp only: i')
  from h r n show ?thesis by (intro conjI)
qed

text \<open>
  The claim as stated, for every range: in a range of two hosts, neither bindable, three
  addresses are short and the instructions are two.
\<close>

theorem find_bind_addrs_short_range_counterexample:
  "find_bind_addrs (bindable_in []) ifconfig_alias 3 net_30
     = (Inl (BindAddressNotFoundError
               [''sudo ifconfig lo0 alias 192.168.128.1 255.255.255.252'',
                ''sudo ifconfig lo0 alias 192.168.128.2 255.255.255.252'']),
        [(3232268289, 19991), (3232268290, 19991)]) \<and>
   int (length [''sudo ifconfig lo0 alias 192.168.128.1 255.255.255.252'',
                ''sudo ifconfig lo0 alias 192.168.128.2 255.255.255.252'']) \<noteq> 3 - 0"
  by (simp add: find_bind_addrs_def net_30_def bindable_in_def BIND_TEST_PORT_def
      addr_alias_setup_instructions_def py_slice0_def ifconfig_alias_def ipv4_str_samples)

section \<open>Verification: the file system\<close>

lemma lookup_append:
  "lookup fs (p @ q) = (case lookup fs p of None \<Rightarrow> None | Some n \<Rightarrow> lookup n q)"
proof (induction p arbitrary: fs)
  case Nil
  show ?case by simp
next
  case (Cons c p)
  show ?case
  proof (cases fs)
    case (File b)
    then show ?thesis by simp
  next
    case (Dir es)
    then show ?thesis by (cases "map_of es c") (simp_all add: Cons.IH)
  qed
qed

lemma put_append:
  "q \<noteq> [] \<Longrightarrow>
   put fs (p @ q) v =
     (case lookup fs p of
        None \<Rightarrow> None
      | Some n \<Rightarrow> (case put n q v of None \<Rightarrow> None | Some n' \<Rightarrow> put fs p (Some n')))"
proof (induction p arbitrary: fs)
  case Nil
  show ?case by (simp split: option.split)
next
  case (Cons c p)
  show ?case
  proof (cases fs)
    case (File b)
    then show ?thesis by simp
  next
    case (Dir es)
    show ?thesis
    proof (cases "map_of es c")
      case None
      with Dir Cons.prems show ?thesis by simp
    next
      case (Some m)
      show ?thesis
      proof (cases "p = []")
        case True
        with Dir Some Cons.prems show ?thesis by (simp split: option.split)
      next
        case False
        with Dir Some Cons.prems Cons.IH [OF Cons.prems, of m] show ?thesis
          by (simp split: option.split)
      qed
    qed
  qed
qed

lemma lookup_put_same: "put fs p v = Some fs' \<Longrightarrow> lookup fs' p = v"
proof (induction p arbitrary: fs fs')
  case Nil
  then show ?case by simp
next
  case (Cons c p)
  show ?case
  proof (cases fs)
    case (File b)
    with Cons.prems show ?thesis by simp
  next
    case (Dir es)
    show ?thesis
    proof (cases "p = []")
      case True
      with Dir Cons.prems show ?thesis
        by (cases v) (auto simp: update_conv' delete_conv')
    next
      case False
      with Dir Cons.prems obtain m m' where m: "map_of es c = Some m" "put m p v = Some m'"
        and f: "fs' = Dir (AList.update c m' es)"
        by (auto split: option.splits)
      from Cons.IH [OF m(2)] f show ?thesis by (simp add: update_conv')
    qed
  qed
qed

lemma lookup_put_other:
  "put fs p v = Some fs' \<Longrightarrow> \<not> prefix p q \<Longrightarrow> \<not> prefix q p \<Longrightarrow> lookup fs' q = lookup fs q"
proof (induction p arbitrary: fs fs' q)
  case Nil
  then show ?case by simp
next
  case (Cons c p)
  from Cons.prems(3) obtain d q' where q: "q = d # q'" by (cases q) auto
  show ?case
  proof (cases fs)
    case (File b)
    with Cons.prems show ?thesis by simp
  next
    case (Dir es)
    show ?thesis
    proof (cases "d = c")
      case False
      with Dir Cons.prems(1) q show ?thesis
        by (auto simp: update_conv' delete_conv' split: option.splits if_splits)
    next
      case True
      with Cons.prems(2,3) q have np: "\<not> prefix p q'" "\<not> prefix q' p" by simp_all
      then have pne: "p \<noteq> []" by auto
      with Dir Cons.prems(1) obtain m m' where m: "map_of es c = Some m" "put m p v = Some m'"
        and f: "fs' = Dir (AList.update c m' es)"
        by (auto split: option.splits)
      from Cons.IH [OF m(2) np] f m(1) Dir q True show ?thesis by (simp add: update_conv')
    qed
  qed
qed

lemma put_put: "put fs p (Some a) = Some fs1 \<Longrightarrow> put fs1 p v = put fs p v"
proof (induction p arbitrary: fs fs1)
  case Nil
  then show ?case by simp
next
  case (Cons c p)
  show ?case
  proof (cases fs)
    case (File b)
    with Cons.prems show ?thesis by simp
  next
    case (Dir es)
    show ?thesis
    proof (cases "p = []")
      case True
      with Dir Cons.prems have "fs1 = Dir (AList.update c a es)" by simp
      with True Dir show ?thesis
        by (cases v) (simp_all add: delete_update_same)
    next
      case False
      with Dir Cons.prems obtain m m' where m: "map_of es c = Some m" "put m p (Some a) = Some m'"
        and f: "fs1 = Dir (AList.update c m' es)"
        by (auto split: option.splits)
      from Cons.IH [OF m(2)] f m(1) Dir False show ?thesis
        by (simp add: update_conv' split: option.split)
    qed
  qed
qed

lemma put_exists: "lookup fs p = Some n \<Longrightarrow> \<exists>fs'. put fs p (Some m) = Some fs'"
proof (induction p arbitrary: fs)
  case Nil
  show ?case by simp
next
  case (Cons c p)
  show ?case
  proof (cases fs)
    case (File b)
    with Cons.prems show ?thesis by simp
  next
    case (Dir es)
    with Cons.prems obtain k where k: "map_of es c = Some k" "lookup k p = Some n"
      by (auto split: option.splits)
    from Cons.IH [OF k(2)] obtain k' where "put k p (Some m) = Some k'" by blast
    with Dir k show ?thesis by simp
  qed
qed

lemma put_child_exists:
  "lookup fs p = Some (Dir es) \<Longrightarrow> \<exists>fs'. put fs (p @ [c]) v = Some fs'"
proof -
  assume a: "lookup fs p = Some (Dir es)"
  obtain n' where n': "put (Dir es) [c] v = Some n'" by (cases v) simp_all
  from put_exists [OF a, of n'] obtain fs' where "put fs p (Some n') = Some fs'" by blast
  with a n' show ?thesis by (simp add: put_append)
qed

lemma put_child_parent:
  assumes "put fs (p @ [c]) v = Some fs'"
  shows "\<exists>es es'. lookup fs p = Some (Dir es) \<and> lookup fs' p = Some (Dir es')"
proof -
  from assms obtain n n' where n: "lookup fs p = Some n" "put n [c] v = Some n'"
    "put fs p (Some n') = Some fs'"
    by (auto simp: put_append split: option.splits)
  from n(2) obtain es where es: "n = Dir es" by (cases n) auto
  with n(2) obtain es' where "n' = Dir es'" by (cases v) auto
  with lookup_put_same [OF n(3)] n(1) es show ?thesis by simp
qed

lemma lookup_under_missing: "lookup fs p = None \<Longrightarrow> lookup fs (p @ q) = None"
  by (simp add: lookup_append)

lemma lookup_under_file: "lookup fs p = Some (File b) \<Longrightarrow> q \<noteq> [] \<Longrightarrow> lookup fs (p @ q) = None"
  by (cases q) (simp_all add: lookup_append)

lemma lookup_under_empty: "lookup fs p = Some (Dir []) \<Longrightarrow> q \<noteq> [] \<Longrightarrow> lookup fs (p @ q) = None"
  by (cases q) (simp_all add: lookup_append)

lemma lookup_child_parent:
  "lookup fs (p @ [c]) = Some n \<Longrightarrow> \<exists>es. lookup fs p = Some (Dir es)"
proof -
  assume a: "lookup fs (p @ [c]) = Some n"
  then obtain k where k: "lookup fs p = Some k" "lookup k [c] = Some n"
    by (auto simp: lookup_append split: option.splits)
  then show ?thesis by (cases k) auto
qed

lemma put_same: "lookup fs p = Some n \<Longrightarrow> put fs p (Some n) = Some fs"
proof (induction p arbitrary: fs)
  case Nil
  then show ?case by simp
next
  case (Cons c p)
  show ?case
  proof (cases fs)
    case (File b)
    with Cons.prems show ?thesis by simp
  next
    case (Dir es)
    with Cons.prems obtain k where k: "map_of es c = Some k" "lookup k p = Some n"
      by (auto split: option.splits)
    show ?thesis
    proof (cases "p = []")
      case True
      with k Dir show ?thesis by (simp add: update_triv)
    next
      case False
      with Cons.IH [OF k(2)] k Dir show ?thesis by (simp add: update_triv)
    qed
  qed
qed

lemma graft_Inl [simp]: "graft fs dir (Inl e) = Inl e"
  by (simp add: graft_def)

lemma graft_put: "put fs dir (Some a) = Some fs1 \<Longrightarrow> graft fs1 dir r = graft fs dir r"
  by (cases r) (simp_all add: graft_def put_put)

lemma graft_Inr:
  assumes "lookup fs dir = Some sub"
  obtains fs' where "put fs dir (Some sub') = Some fs'" and "graft fs dir (Inr sub') = Inr fs'"
    and "lookup fs' dir = Some sub'"
proof -
  from put_exists [OF assms, of sub'] obtain fs' where p: "put fs dir (Some sub') = Some fs'"
    by blast
  then have "graft fs dir (Inr sub') = Inr fs'" by (simp add: graft_def)
  with p lookup_put_same [OF p] that show thesis by blast
qed

lemma zoom_isdir: "lookup fs dir = Some sub \<Longrightarrow> isdir fs (dir @ q) = isdir sub q"
  by (simp add: isdir_def lookup_append)

lemma zoom_exists: "lookup fs dir = Some sub \<Longrightarrow> py_exists fs (dir @ q) = py_exists sub q"
  by (simp add: py_exists_def lookup_append)

lemma zoom_listdir: "lookup fs dir = Some sub \<Longrightarrow> listdir fs (dir @ q) = listdir sub q"
  by (simp add: listdir_def lookup_append)

lemma zoom_put:
  assumes "lookup fs dir = Some sub" and "q \<noteq> []"
  shows "(case put fs (dir @ q) v of None \<Rightarrow> Inl e | Some fs' \<Rightarrow> Inr fs')
       = graft fs dir (case put sub q v of None \<Rightarrow> Inl e | Some sub' \<Rightarrow> Inr sub')"
proof (cases "put sub q v")
  case None
  with assms show ?thesis by (simp add: put_append)
next
  case (Some sub')
  from graft_Inr [OF assms(1), of sub'] obtain fs' where
    "put fs dir (Some sub') = Some fs'" "graft fs dir (Inr sub') = Inr fs'" by blast
  with Some assms show ?thesis by (simp add: put_append)
qed

lemma zoom_rmdir:
  assumes "lookup fs dir = Some sub" and "q \<noteq> []"
  shows "rmdir fs (dir @ q) = graft fs dir (rmdir sub q)"
proof (cases "lookup sub q")
  case None
  with assms show ?thesis by (simp add: rmdir_def lookup_append)
next
  case (Some n)
  show ?thesis
  proof (cases n)
    case (File b)
    with Some assms show ?thesis by (simp add: rmdir_def lookup_append)
  next
    case (Dir es)
    show ?thesis
    proof (cases "es = []")
      case True
      with Dir Some assms(1) zoom_put [OF assms, where v = None and e = OSError] show ?thesis
        by (simp add: rmdir_def lookup_append)
    next
      case False
      with Dir Some assms show ?thesis by (simp add: rmdir_def lookup_append)
    qed
  qed
qed

lemma basename_append: "s \<noteq> [] \<Longrightarrow> basename (dir @ s) = basename s"
  by (simp add: basename_def)

lemma zoom_move:
  assumes sub: "lookup fs dir = Some sub" and s: "s \<noteq> []" and d: "d \<noteq> []"
  shows "move fs (dir @ s) (dir @ d) = graft fs dir (move sub s d)"
proof -
  define rd where "rd = (if isdir sub d then d @ [basename s] else d)"
  have rdne: "rd \<noteq> []" using d by (simp add: rd_def)
  have grd: "(if isdir fs (dir @ d) then (dir @ d) @ [basename (dir @ s)] else dir @ d) = dir @ rd"
    using sub s by (simp add: rd_def zoom_isdir basename_append)
  have g: "move fs (dir @ s) (dir @ d) =
      (if isdir sub d \<and> py_exists sub rd then Inl ShutilError
       else (case lookup sub s of
               None \<Rightarrow> Inl FileNotFoundError
             | Some n \<Rightarrow>
                 if isdir sub s \<and> py_exists sub rd then Inl FileExistsError
                 else (case put fs (dir @ s) None of
                         None \<Rightarrow> Inl OSError
                       | Some fs1 \<Rightarrow>
                           (case put fs1 (dir @ rd) (Some n) of
                              None \<Rightarrow> Inl FileNotFoundError
                            | Some fs2 \<Rightarrow> Inr fs2))))"
    unfolding move_def Let_def grd
    using sub by (simp add: zoom_isdir zoom_exists lookup_append cong: option.case_cong)
  have l: "move sub s d =
      (if isdir sub d \<and> py_exists sub rd then Inl ShutilError
       else (case lookup sub s of
               None \<Rightarrow> Inl FileNotFoundError
             | Some n \<Rightarrow>
                 if isdir sub s \<and> py_exists sub rd then Inl FileExistsError
                 else (case put sub s None of
                         None \<Rightarrow> Inl OSError
                       | Some sub1 \<Rightarrow>
                           (case put sub1 rd (Some n) of
                              None \<Rightarrow> Inl FileNotFoundError
                            | Some sub2 \<Rightarrow> Inr sub2))))"
    unfolding move_def Let_def rd_def by simp
  show ?thesis
  proof (cases "isdir sub d \<and> py_exists sub rd")
    case True
    then show ?thesis by (simp add: g l)
  next
    case c1: False
    show ?thesis
    proof (cases "lookup sub s")
      case None
      with c1 show ?thesis by (simp add: g l)
    next
      case (Some n)
      show ?thesis
      proof (cases "isdir sub s \<and> py_exists sub rd")
        case True
        with c1 Some show ?thesis by (simp add: g l)
      next
        case c2: False
        show ?thesis
        proof (cases "put sub s None")
          case None
          with c1 c2 Some sub s show ?thesis by (simp add: g l put_append)
        next
          case p1: (Some sub1)
          from graft_Inr [OF sub, of sub1] obtain fs1 where
            fs1: "put fs dir (Some sub1) = Some fs1" "lookup fs1 dir = Some sub1" by blast
          have gp1: "put fs (dir @ s) None = Some fs1"
            using sub s p1 fs1 by (simp add: put_append)
          have z: "(case put fs1 (dir @ rd) (Some n) of None \<Rightarrow> Inl FileNotFoundError | Some fs' \<Rightarrow> Inr fs')
             = graft fs dir (case put sub1 rd (Some n) of None \<Rightarrow> Inl FileNotFoundError | Some sub' \<Rightarrow> Inr sub')"
            using zoom_put [OF fs1(2) rdne, where v = "Some n" and e = FileNotFoundError] graft_put [OF fs1(1)]
            by simp
          from c1 c2 Some p1 gp1 z show ?thesis unfolding g l by (simp only: if_False option.case)
        qed
      qed
    qed
  qed
qed

lemma zoom_move_all:
  assumes "lookup fs dir = Some sub"
  shows "move_all fs (dir @ [b]) dir names = graft fs dir (move_all sub [b] [] names)"
  using assms
proof (induction names arbitrary: fs sub)
  case Nil
  then show ?case by (simp add: graft_def put_same)
next
  case (Cons f names)
  have m: "move fs ((dir @ [b]) @ [f]) (dir @ [f]) = graft fs dir (move sub ([b] @ [f]) ([] @ [f]))"
    using zoom_move [OF Cons.prems, of "[b, f]" "[f]"] by simp
  show ?case
  proof (cases "move sub ([b] @ [f]) ([] @ [f])")
    case (Inl e)
    with m show ?thesis by simp
  next
    case (Inr sub1)
    from graft_Inr [OF Cons.prems, of sub1] obtain fs1 where
      fs1: "put fs dir (Some sub1) = Some fs1" "graft fs dir (Inr sub1) = Inr fs1"
      "lookup fs1 dir = Some sub1" by blast
    from Cons.IH [OF fs1(3)] graft_put [OF fs1(1)]
    have "move_all fs1 (dir @ [b]) dir names = graft fs dir (move_all sub1 [b] [] names)" by simp
    with m Inr fs1(2) show ?thesis by simp
  qed
qed

lemma zoom_flatten:
  assumes "lookup fs dir = Some sub"
  shows "flatten_at fs dir b = graft fs dir (flatten_at sub [] b)"
proof (cases "listdir sub [b]")
  case (Inl e)
  with zoom_listdir [OF assms, of "[b]"] show ?thesis by (simp add: flatten_at_def)
next
  case names: (Inr names)
  show ?thesis
  proof (cases "move_all sub [b] [] names")
    case (Inl e)
    with names zoom_listdir [OF assms, of "[b]"] zoom_move_all [OF assms, of b names]
    show ?thesis by (simp add: flatten_at_def)
  next
    case (Inr sub4)
    from graft_Inr [OF assms, of sub4] obtain fs4 where
      fs4: "put fs dir (Some sub4) = Some fs4" "graft fs dir (Inr sub4) = Inr fs4"
      "lookup fs4 dir = Some sub4" by blast
    have "rmdir fs4 (dir @ [b]) = graft fs dir (rmdir sub4 [b])"
      using zoom_rmdir [OF fs4(3), of "[b]"] graft_put [OF fs4(1)] by simp
    with names Inr fs4(2) zoom_listdir [OF assms, of "[b]"] zoom_move_all [OF assms, of b names]
    show ?thesis by (simp add: flatten_at_def)
  qed
qed

lemma path_snoc: "d \<noteq> [] \<Longrightarrow> butlast d @ [last d] = d"
  by simp

lemma mkdir_Inr:
  assumes "mkdir fs p = Inr fs'"
  shows "put fs p (Some (Dir [])) = Some fs' \<and> lookup fs p = None \<and> p \<noteq> []"
proof -
  from assms have p: "p \<noteq> []" by (auto simp: mkdir_def)
  with assms obtain es where es: "lookup fs (butlast p) = Some (Dir es)"
    by (auto simp: mkdir_def split: option.splits node.splits)
  with assms p have "lookup fs p = None" and "put fs p (Some (Dir [])) = Some fs'"
    by (auto simp: mkdir_def py_exists_def split: option.splits if_splits)
  with p show ?thesis by simp
qed

lemma makedirs_Inr: "makedirs fs p = Inr fs' \<Longrightarrow> lookup fs' p = Some (Dir [])"
proof -
  assume a: "makedirs fs p = Inr fs'"
  then obtain fs0 where "mkdir fs0 p = Inr fs'"
    by (subst (asm) makedirs.simps) (auto split: if_splits sum.splits)
  from mkdir_Inr [OF this] show ?thesis by (blast dest: lookup_put_same)
qed

lemma makedirs_parent:
  "lookup fs (butlast p) = Some (Dir es) \<Longrightarrow> makedirs fs p = mkdir fs p"
  by (subst makedirs.simps) (simp add: py_exists_def)

lemma prefix_butlast_strict: "prefix q d \<Longrightarrow> q \<noteq> d \<Longrightarrow> prefix q (butlast d)"
  by (auto simp: prefix_def butlast_append)

lemma file_not_above:
  assumes "lookup fs path = Some (File bytes)" and "lookup fs (butlast d) = Some (Dir ps)"
    and "path \<noteq> d"
  shows "\<not> prefix path d"
proof
  assume "prefix path d"
  with assms(3) have "prefix path (butlast d)" by (simp add: prefix_butlast_strict)
  then obtain z where z: "butlast d = path @ z" by (auto simp: prefix_def)
  show False
  proof (cases "z = []")
    case True
    with z assms(1,2) show False by simp
  next
    case False
    from lookup_under_file [OF assms(1) False] z assms(2) show False by simp
  qed
qed

lemma same_outside_refl: "same_outside d fs fs"
  by (simp add: same_outside_def)

lemma same_outside_trans:
  "same_outside d fs fs1 \<Longrightarrow> same_outside d fs1 fs2 \<Longrightarrow> same_outside d fs fs2"
  by (simp add: same_outside_def)

lemma same_outside_put: "put fs d v = Some fs' \<Longrightarrow> same_outside d fs fs'"
  by (simp add: same_outside_def lookup_put_other)

lemma prepare_dir_fail: "lookup fs d = Some (File b) \<Longrightarrow> prepare_dir fs d = Inl NotADirectoryError"
  by (simp add: prepare_dir_def py_exists_def rmtree_def)

lemma prepare_dir_ok:
  assumes d: "d \<noteq> []" and parent: "lookup fs (butlast d) = Some (Dir ps)"
    and notfile: "\<forall>b. lookup fs d \<noteq> Some (File b)"
  shows "\<exists>fs2 ps'. prepare_dir fs d = Inr fs2 \<and> lookup fs2 d = Some (Dir []) \<and>
           same_outside d fs fs2 \<and> lookup fs2 (butlast d) = Some (Dir ps')"
proof -
  have "\<exists>fs1 ps1. (if py_exists fs d then rmtree fs d else Inr fs) = Inr fs1 \<and> lookup fs1 d = None \<and>
          same_outside d fs fs1 \<and> lookup fs1 (butlast d) = Some (Dir ps1)"
  proof (cases "lookup fs d")
    case None
    with parent show ?thesis by (auto simp: py_exists_def same_outside_refl)
  next
    case (Some n)
    with notfile obtain es where es: "n = Dir es" by (cases n) auto
    from put_child_exists [OF parent, of "last d" None] d obtain fs1 where
      fs1: "put fs d None = Some fs1" by auto
    then have "put fs (butlast d @ [last d]) None = Some fs1" using d by simp
    from put_child_parent [OF this] obtain ps1 where "lookup fs1 (butlast d) = Some (Dir ps1)"
      by blast
    with Some es fs1 lookup_put_same [OF fs1] same_outside_put [OF fs1] show ?thesis
      by (auto simp: py_exists_def rmtree_def)
  qed
  then obtain fs1 ps1 where r: "(if py_exists fs d then rmtree fs d else Inr fs) = Inr fs1"
    and n1: "lookup fs1 d = None" and o1: "same_outside d fs fs1"
    and p1: "lookup fs1 (butlast d) = Some (Dir ps1)" by blast
  from put_child_exists [OF p1, of "last d" "Some (Dir [])"] d obtain fs2 where
    fs2: "put fs1 d (Some (Dir [])) = Some fs2" by auto
  then have "put fs1 (butlast d @ [last d]) (Some (Dir [])) = Some fs2" using d by simp
  from put_child_parent [OF this] obtain ps2 where p2: "lookup fs2 (butlast d) = Some (Dir ps2)"
    by blast
  have "mkdir fs1 d = Inr fs2"
    using d p1 n1 fs2 by (simp add: mkdir_def py_exists_def)
  with makedirs_parent [OF p1] have "makedirs fs1 d = Inr fs2" by simp
  with r have "prepare_dir fs d = Inr fs2" by (simp add: prepare_dir_def)
  moreover have "lookup fs2 d = Some (Dir [])" by (rule lookup_put_same [OF fs2])
  moreover have "same_outside d fs fs2"
    by (rule same_outside_trans [OF o1 same_outside_put [OF fs2]])
  ultimately show ?thesis using p2 by blast
qed

lemma prepare_dir_Inr: "prepare_dir fs d = Inr fs2 \<Longrightarrow> lookup fs2 d = Some (Dir [])"
  by (auto simp: prepare_dir_def split: sum.splits dest: makedirs_Inr)

lemma extract_binary_alt:
  "extract_binary U fs path info =
     (case prepare_dir fs (extraction_dir info) of
        Inl e \<Rightarrow> Inl e
      | Inr fs2 \<Rightarrow>
          (case unpack_archive U fs2 path (extraction_dir info) of
             Inl e \<Rightarrow> Inl e
           | Inr fs3 \<Rightarrow>
               (case flatten_at fs3 (extraction_dir info) (splitext_root (basename path)) of
                  Inl e \<Rightarrow> Inl e
                | Inr fs5 \<Rightarrow> Inr (extraction_dir info, fs5))))"
  by (simp add: extract_binary_def prepare_dir_def flatten_at_def Let_def split: sum.split)

lemma unpack_archive_ok:
  assumes "lookup fs2 d = Some (Dir [])" and "lookup fs2 path = Some (File bytes)"
    and "U (basename path) bytes = Some entries"
  shows "\<exists>fs3. unpack_archive U fs2 path d = Inr fs3 \<and>
           put fs2 d (Some (Dir (fold (\<lambda>(n, m). AList.update n m) entries []))) = Some fs3"
proof -
  from put_exists [OF assms(1)] obtain fs3 where
    "put fs2 d (Some (Dir (fold (\<lambda>(n, m). AList.update n m) entries []))) = Some fs3" by blast
  with assms show ?thesis by (simp add: unpack_archive_def)
qed

lemma unpack_archive_Inr:
  assumes "unpack_archive U fs2 path d = Inr fs3"
  shows "\<exists>bytes entries es. lookup fs2 path = Some (File bytes) \<and>
           U (basename path) bytes = Some entries \<and> lookup fs2 d = Some (Dir es) \<and>
           put fs2 d (Some (Dir (fold (\<lambda>(n, m). AList.update n m) entries es))) = Some fs3"
  using assms by (auto simp: unpack_archive_def split: option.splits node.splits)

lemma rmdir_Inr: "rmdir fs p = Inr fs' \<Longrightarrow> put fs p None = Some fs'"
  by (auto simp: rmdir_def split: option.splits node.splits if_splits)

lemma flatten_at_Inr:
  assumes "flatten_at fs d b = Inr fs'"
  shows "lookup fs' (d @ [b]) = None \<and> (\<exists>es. lookup fs' d = Some (Dir es))"
proof -
  from assms obtain fs4 where "rmdir fs4 (d @ [b]) = Inr fs'"
    by (auto simp: flatten_at_def split: sum.splits)
  then have p: "put fs4 (d @ [b]) None = Some fs'" by (rule rmdir_Inr)
  from lookup_put_same [OF p] put_child_parent [OF p] show ?thesis by blast
qed

lemma extract_binary_no_nested:
  assumes "extract_binary U fs path info = Inr (d, fs')"
  shows "d = extraction_dir info \<and> lookup fs' (d @ [splitext_root (basename path)]) = None \<and>
         (\<exists>es. lookup fs' d = Some (Dir es))"
proof -
  from assms obtain fs3 where d: "d = extraction_dir info"
    and "flatten_at fs3 d (splitext_root (basename path)) = Inr fs'"
    by (auto simp: extract_binary_alt split: sum.splits)
  from flatten_at_Inr [OF this(2)] d show ?thesis by simp
qed

lemma below_file_iff:
  "below_file fs p \<longleftrightarrow> (\<exists>q b. prefix q p \<and> lookup fs q = Some (File b))"
proof (induction fs p rule: below_file.induct)
  case (1 b p)
  have "prefix [] p \<and> lookup (File b) [] = Some (File b)" by simp
  then have "\<exists>q b'. prefix q p \<and> lookup (File b) q = Some (File b')" by blast
  then show ?case by simp
next
  case (2 es)
  show ?case by simp
next
  case (3 es c p)
  show ?case
  proof (cases "map_of es c")
    case None
    have "\<not> (\<exists>q b. prefix q (c # p) \<and> lookup (Dir es) q = Some (File b))"
    proof (intro notI, elim exE conjE)
      fix q b assume "prefix q (c # p)" and "lookup (Dir es) q = Some (File b)"
      with None show False by (cases q) auto
    qed
    with None show ?thesis by simp
  next
    case (Some m)
    have "(\<exists>q b. prefix q (c # p) \<and> lookup (Dir es) q = Some (File b))
       \<longleftrightarrow> (\<exists>q b. prefix q p \<and> lookup m q = Some (File b))"
    proof
      assume "\<exists>q b. prefix q (c # p) \<and> lookup (Dir es) q = Some (File b)"
      then obtain q b where q: "prefix q (c # p)" "lookup (Dir es) q = Some (File b)" by blast
      then obtain q' where "q = c # q'" "prefix q' p" by (cases q) auto
      with q(2) Some show "\<exists>q b. prefix q p \<and> lookup m q = Some (File b)" by auto
    next
      assume "\<exists>q b. prefix q p \<and> lookup m q = Some (File b)"
      then obtain q b where "prefix q p" "lookup m q = Some (File b)" by blast
      with Some have "prefix (c # q) (c # p) \<and> lookup (Dir es) (c # q) = Some (File b)" by simp
      then show "\<exists>q b. prefix q (c # p) \<and> lookup (Dir es) q = Some (File b)" by blast
    qed
    with 3 [OF Some] Some show ?thesis by simp
  qed
qed

lemma not_below_file: "\<not> below_file fs d \<Longrightarrow> \<forall>q b. prefix q d \<longrightarrow> lookup fs q \<noteq> Some (File b)"
  by (auto simp: below_file_iff)

lemma makedirs_fresh:
  "p \<noteq> [] \<Longrightarrow> lookup fs p = None \<Longrightarrow> (\<forall>q b. prefix q p \<longrightarrow> lookup fs q \<noteq> Some (File b)) \<Longrightarrow>
     \<exists>fs'. makedirs fs p = Inr fs' \<and> lookup fs' p = Some (Dir []) \<and> same_outside p fs fs'"
proof (induction p arbitrary: fs rule: rev_induct)
  case Nil
  then show ?case by simp
next
  case (snoc x xs)
  have bl: "butlast (xs @ [x]) = xs" by simp
  show ?case
  proof (cases "lookup fs xs")
    case (Some n)
    from snoc.prems(3) have "\<forall>b. lookup fs xs \<noteq> Some (File b)" by auto
    with Some obtain es where es: "lookup fs xs = Some (Dir es)" by (cases n) auto
    from put_child_exists [OF es, of x "Some (Dir [])"] obtain fs' where
      p: "put fs (xs @ [x]) (Some (Dir [])) = Some fs'" by blast
    have "mkdir fs (xs @ [x]) = Inr fs'"
      using es snoc.prems(2) p by (simp add: mkdir_def py_exists_def)
    with makedirs_parent [of fs "xs @ [x]" es] es have "makedirs fs (xs @ [x]) = Inr fs'"
      by simp
    with lookup_put_same [OF p] same_outside_put [OF p] show ?thesis by blast
  next
    case None
    then have xs: "xs \<noteq> []" by auto
    from snoc.prems(3) have "\<forall>q b. prefix q xs \<longrightarrow> lookup fs q \<noteq> Some (File b)" by auto
    from snoc.IH [OF xs None this] obtain fs1 where
      m1: "makedirs fs xs = Inr fs1" and e1: "lookup fs1 xs = Some (Dir [])"
      and o1: "same_outside xs fs fs1" by blast
    from put_child_exists [OF e1, of x "Some (Dir [])"] obtain fs' where
      p: "put fs1 (xs @ [x]) (Some (Dir [])) = Some fs'" by blast
    have n1: "lookup fs1 (xs @ [x]) = None" using lookup_under_empty [OF e1, of "[x]"] by simp
    have "mkdir fs1 (xs @ [x]) = Inr fs'"
      using e1 n1 p by (simp add: mkdir_def py_exists_def)
    with None m1 have mk: "makedirs fs (xs @ [x]) = Inr fs'"
      by (subst makedirs.simps) (simp add: py_exists_def)
    have "same_outside (xs @ [x]) fs fs'"
      unfolding same_outside_def
    proof (intro allI impI)
      fix q assume a: "\<not> prefix (xs @ [x]) q" and b: "\<not> prefix q (xs @ [x])"
      from lookup_put_other [OF p a b] have l: "lookup fs' q = lookup fs1 q" .
      show "lookup fs' q = lookup fs q"
      proof (cases "prefix xs q")
        case False
        moreover from b have "\<not> prefix q xs" by (auto simp: prefix_def)
        ultimately have "lookup fs1 q = lookup fs q" using o1 by (simp add: same_outside_def)
        with l show ?thesis by simp
      next
        case True
        then obtain z where z: "q = xs @ z" by (auto simp: prefix_def)
        with b have "z \<noteq> []" by auto
        from lookup_under_empty [OF e1 this] lookup_under_missing [OF None, of z] z l
        show ?thesis by simp
      qed
    qed
    with mk lookup_put_same [OF p] show ?thesis by blast
  qed
qed

lemma no_file_above:
  assumes "lookup fs (butlast d) = Some (Dir ps)" and "\<forall>b. lookup fs d \<noteq> Some (File b)"
  shows "\<forall>q b. prefix q d \<longrightarrow> lookup fs q \<noteq> Some (File b)"
proof (intro allI impI notI)
  fix q b assume p: "prefix q d" and f: "lookup fs q = Some (File b)"
  from f assms(2) have "q \<noteq> d" by auto
  from file_not_above [OF f assms(1) this] p show False by simp
qed

lemma prepare_dir_general:
  assumes d: "d \<noteq> []" and nofile: "\<forall>q b. prefix q d \<longrightarrow> lookup fs q \<noteq> Some (File b)"
  shows "\<exists>fs2. prepare_dir fs d = Inr fs2 \<and> lookup fs2 d = Some (Dir []) \<and> same_outside d fs fs2"
proof (cases "lookup fs d")
  case None
  from makedirs_fresh [OF d None nofile] None show ?thesis
    by (simp add: prepare_dir_def py_exists_def)
next
  case (Some n)
  with d have "lookup fs (butlast d @ [last d]) = Some n" by simp
  from lookup_child_parent [OF this] obtain ps where
    parent: "lookup fs (butlast d) = Some (Dir ps)" by blast
  from nofile have "\<forall>b. lookup fs d \<noteq> Some (File b)" by auto
  from prepare_dir_ok [OF d parent this] show ?thesis by blast
qed

lemma extract_binary_run_general:
  assumes d: "extraction_dir info = d" "d \<noteq> []"
    and nofile: "\<forall>q b. prefix q d \<longrightarrow> lookup fs q \<noteq> Some (File b)"
    and arch: "lookup fs path = Some (File bytes)" "\<not> prefix d path"
    and U: "U (basename path) bytes = Some entries"
    and flat: "flatten_at (Dir (fold (\<lambda>(n, m). AList.update n m) entries [])) []
                 (splitext_root (basename path)) = Inr sub'"
  shows "\<exists>fs' ps'. extract_binary U fs path info = Inr (d, fs') \<and> lookup fs' d = Some sub' \<and>
           same_outside d fs fs' \<and> lookup fs' (butlast d) = Some (Dir ps')"
proof -
  let ?E = "fold (\<lambda>(n, m). AList.update n m) entries []"
  let ?b = "splitext_root (basename path)"
  from prepare_dir_general [OF d(2) nofile] obtain fs2 where
    prep: "prepare_dir fs d = Inr fs2" and e2: "lookup fs2 d = Some (Dir [])"
    and o2: "same_outside d fs fs2" by blast
  from arch(1) nofile have np: "\<not> prefix path d" by auto
  from o2 arch(2) np have "lookup fs2 path = lookup fs path" by (simp add: same_outside_def)
  with arch(1) have a2: "lookup fs2 path = Some (File bytes)" by simp
  from unpack_archive_ok [where U = U, OF e2 a2 U] obtain fs3 where
    un: "unpack_archive U fs2 path d = Inr fs3" and p3: "put fs2 d (Some (Dir ?E)) = Some fs3"
    by blast
  from lookup_put_same [OF p3] have l3: "lookup fs3 d = Some (Dir ?E)" .
  from graft_Inr [OF l3, of sub'] obtain fs' where
    p4: "put fs3 d (Some sub') = Some fs'" and g: "graft fs3 d (Inr sub') = Inr fs'"
    and l4: "lookup fs' d = Some sub'" by blast
  from zoom_flatten [OF l3, of ?b] flat g have fl: "flatten_at fs3 d ?b = Inr fs'" by simp
  have ex: "extract_binary U fs path info = Inr (d, fs')"
    by (simp add: extract_binary_alt d(1) prep un fl)
  have o4: "same_outside d fs fs'"
    by (rule same_outside_trans [OF o2 same_outside_trans [OF same_outside_put [OF p3]
          same_outside_put [OF p4]]])
  from p4 d(2) have "put fs3 (butlast d @ [last d]) (Some sub') = Some fs'" by simp
  from put_child_parent [OF this] obtain ps' where "lookup fs' (butlast d) = Some (Dir ps')"
    by blast
  with ex l4 o4 show ?thesis by blast
qed

lemma extract_binary_run:
  assumes d: "extraction_dir info = d" "d \<noteq> []"
    and parent: "lookup fs (butlast d) = Some (Dir ps)"
    and notfile: "\<forall>b. lookup fs d \<noteq> Some (File b)"
    and arch: "lookup fs path = Some (File bytes)" "\<not> prefix d path"
    and U: "U (basename path) bytes = Some entries"
    and flat: "flatten_at (Dir (fold (\<lambda>(n, m). AList.update n m) entries [])) []
                 (splitext_root (basename path)) = Inr sub'"
  shows "\<exists>fs' ps'. extract_binary U fs path info = Inr (d, fs') \<and> lookup fs' d = Some sub' \<and>
           same_outside d fs fs' \<and> lookup fs' (butlast d) = Some (Dir ps')"
  by (rule extract_binary_run_general [where U = U, OF d no_file_above [OF parent notfile] arch U flat])

lemma extract_binary_success:
  assumes ex: "extract_binary U fs path info = Inr (d', fs')"
    and d: "extraction_dir info = d" "d \<noteq> []"
    and parent: "lookup fs (butlast d) = Some (Dir ps)"
    and unrel: "\<not> prefix d path" "\<not> prefix path d"
  shows "d' = d \<and> (\<forall>b. lookup fs d \<noteq> Some (File b)) \<and>
    (\<exists>bytes entries sub'. lookup fs path = Some (File bytes) \<and>
        U (basename path) bytes = Some entries \<and>
        flatten_at (Dir (fold (\<lambda>(n, m). AList.update n m) entries [])) []
          (splitext_root (basename path)) = Inr sub')"
proof -
  let ?b = "splitext_root (basename path)"
  have notfile: "\<forall>b. lookup fs d \<noteq> Some (File b)"
  proof (intro allI notI)
    fix b assume "lookup fs d = Some (File b)"
    from prepare_dir_fail [OF this] ex d(1) show False by (simp add: extract_binary_alt)
  qed
  from prepare_dir_ok [OF d(2) parent notfile] obtain fs2 where
    prep: "prepare_dir fs d = Inr fs2" and e2: "lookup fs2 d = Some (Dir [])"
    and o2: "same_outside d fs fs2" by blast
  from ex d(1) prep obtain fs3 where dd: "d' = d" and un: "unpack_archive U fs2 path d = Inr fs3"
    and fl: "flatten_at fs3 d ?b = Inr fs'"
    by (auto simp: extract_binary_alt split: sum.splits)
  from unpack_archive_Inr [OF un] e2 obtain bytes entries where
    a2: "lookup fs2 path = Some (File bytes)" and U: "U (basename path) bytes = Some entries"
    and p3: "put fs2 d (Some (Dir (fold (\<lambda>(n, m). AList.update n m) entries []))) = Some fs3"
    by auto
  from o2 unrel a2 have a: "lookup fs path = Some (File bytes)" by (simp add: same_outside_def)
  from lookup_put_same [OF p3] have
    l3: "lookup fs3 d = Some (Dir (fold (\<lambda>(n, m). AList.update n m) entries []))" .
  from zoom_flatten [OF l3, of ?b] fl obtain sub' where
    "flatten_at (Dir (fold (\<lambda>(n, m). AList.update n m) entries [])) [] ?b = Inr sub'"
    by (cases "flatten_at (Dir (fold (\<lambda>(n, m). AList.update n m) entries [])) [] ?b") auto
  with dd notfile a U show ?thesis by blast
qed

lemma update_fresh: "k \<notin> fst ` set al \<Longrightarrow> AList.update k v al = al @ [(k, v)]"
  by (induction al) auto

lemma map_of_fresh: "k \<notin> fst ` set al \<Longrightarrow> map_of al k = None"
  by (simp add: map_of_eq_None_iff)

lemma move_single:
  assumes "c \<noteq> b" and "c \<notin> fst ` set moved" and "c \<notin> fst ` set rest"
  shows "move (Dir ((b, Dir ((c, n) # rest)) # moved)) ([b] @ [c]) ([] @ [c])
       = Inr (Dir ((b, Dir rest) # moved @ [(c, n)]))"
  using assms
  by (simp add: move_def isdir_def py_exists_def basename_def Let_def update_fresh map_of_fresh)

lemma move_all_single:
  assumes "distinct (map fst (moved @ rest))" and "b \<notin> fst ` set (moved @ rest)"
  shows "move_all (Dir ((b, Dir rest) # moved)) [b] [] (map fst rest)
       = Inr (Dir ((b, Dir []) # moved @ rest))"
  using assms
proof (induction rest arbitrary: moved)
  case Nil
  show ?case by simp
next
  case (Cons e rest)
  obtain c n where e: "e = (c, n)" by (cases e)
  from Cons.prems e have c: "c \<noteq> b" "c \<notin> fst ` set moved" "c \<notin> fst ` set rest"
    by auto
  from Cons.prems e have "distinct (map fst ((moved @ [(c, n)]) @ rest))"
    and "b \<notin> fst ` set ((moved @ [(c, n)]) @ rest)" by auto
  from Cons.IH [OF this] move_single [OF c] e show ?case by simp
qed

lemma flatten_single:
  assumes "distinct (map fst children)" and "b \<notin> fst ` set children"
  shows "flatten_at (Dir [(b, Dir children)]) [] b = Inr (Dir children)"
proof -
  from assms have "move_all (Dir ((b, Dir children) # [])) [b] [] (map fst children)
       = Inr (Dir ((b, Dir []) # [] @ children))"
    by (intro move_all_single) simp_all
  with assms(2) show ?thesis
    by (simp add: flatten_at_def listdir_def rmdir_def)
qed

text \<open>
  C8, amended: for every archive whose only top-level entry is a directory named after the
  archive's base filename, with distinct entry names of which none is that base filename,
  extraction (into a directory that neither is nor lies below a file) destroys the target
  directory if present, recreates it, unpacks the archive and returns with the flattened
  directory: it holds exactly the entries of that top-level directory, no entry named
  after the archive remains in it, and nothing beside the extraction directory has
  changed.
\<close>

theorem extract_binary_flattens:
  assumes "extraction_dir info = d" and "d \<noteq> []"
    and "\<not> below_file fs d"
    and "lookup fs path = Some (File bytes)" and "\<not> prefix d path"
    and "U (basename path) bytes = Some [(splitext_root (basename path), Dir children)]"
    and "distinct (map fst children)"
    and "splitext_root (basename path) \<notin> fst ` set children"
  shows "\<exists>fs'. extract_binary U fs path info = Inr (d, fs') \<and>
           lookup fs' d = Some (Dir children) \<and>
           lookup fs' (d @ [splitext_root (basename path)]) = None \<and>
           same_outside d fs fs'"
proof -
  let ?b = "splitext_root (basename path)"
  have "flatten_at (Dir (fold (\<lambda>(n, m). AList.update n m) [(?b, Dir children)] [])) [] ?b
      = Inr (Dir children)"
    using flatten_single [OF assms(7,8)] by simp
  from extract_binary_run_general [where U = U, OF assms(1,2) not_below_file [OF assms(3)] assms(4-6) this]
  obtain fs' where
    ex: "extract_binary U fs path info = Inr (d, fs')" and l: "lookup fs' d = Some (Dir children)"
    and o: "same_outside d fs fs'" by blast
  from extract_binary_no_nested [OF ex] have "lookup fs' (d @ [?b]) = None" by blast
  with ex l o show ?thesis by blast
qed

section \<open>Verification: the sandbox image\<close>

lemma extract_binary_run_tree:
  assumes d: "extraction_dir info = d" "d \<noteq> []"
    and parent: "lookup fs (butlast d) = Some (Dir ps)"
    and notfile: "\<forall>b. lookup fs d \<noteq> Some (File b)"
    and arch: "lookup fs path = Some (File bytes)" "\<not> prefix d path"
    and tree: "archive_tree U (basename path) bytes = Inr sub'"
  shows "\<exists>fs' ps'. extract_binary U fs path info = Inr (d, fs') \<and> lookup fs' d = Some sub' \<and>
           same_outside d fs fs' \<and> lookup fs' (butlast d) = Some (Dir ps')"
proof -
  from tree obtain entries where U: "U (basename path) bytes = Some entries"
    and flat: "flatten_at (Dir (fold (\<lambda>(n, m). AList.update n m) entries [])) []
                 (splitext_root (basename path)) = Inr sub'"
    by (auto simp: archive_tree_def split: option.splits)
  from extract_binary_run [where U = U, OF d parent notfile arch U flat] show ?thesis .
qed

lemma extract_binary_success_tree:
  assumes ex: "extract_binary U fs path info = Inr (d', fs')"
    and d: "extraction_dir info = d" "d \<noteq> []"
    and parent: "lookup fs (butlast d) = Some (Dir ps)"
    and unrel: "\<not> prefix d path" "\<not> prefix path d"
  shows "d' = d \<and> (\<forall>b. lookup fs d \<noteq> Some (File b)) \<and>
    (\<exists>bytes sub'. lookup fs path = Some (File bytes) \<and>
        archive_tree U (basename path) bytes = Inr sub')"
  using extract_binary_success [OF ex d parent unrel]
  by (auto simp: archive_tree_def)

lemma archive_tree_Dir: "archive_tree U name bytes = Inr sub' \<Longrightarrow> \<exists>es. sub' = Dir es"
proof -
  assume "archive_tree U name bytes = Inr sub'"
  then obtain E where "flatten_at (Dir E) [] (splitext_root name) = Inr sub'"
    by (auto simp: archive_tree_def split: option.splits)
  from flatten_at_Inr [OF this] show ?thesis by simp
qed

lemma resolve_binaries_cached:
  assumes "py_exists (files w) (image_dir @ [''conductr-'' @ v @ ''.tgz''])"
    and "py_exists (files w) (image_dir @ [''conductr-agent-'' @ v @ ''.tgz''])"
  shows "resolve_binaries b core_info agent_info image_dir v w
       = Inr ((image_dir @ [''conductr-'' @ v @ ''.tgz''],
               image_dir @ [''conductr-agent-'' @ v @ ''.tgz'']), w)"
  using assms by (simp add: resolve_binaries_def resolve_binary_from_cache_def)

lemma obtain_sandbox_image_cached:
  assumes "py_exists (files w) (image_dir @ [''conductr-'' @ v @ ''.tgz''])"
    and "py_exists (files w) (image_dir @ [''conductr-agent-'' @ v @ ''.tgz''])"
  shows "obtain_sandbox_image b U image_dir v w =
     (case extract_binary U (files w) (image_dir @ [''conductr-'' @ v @ ''.tgz''])
             (fst (resolve_conductr_info image_dir)) of
        Inl e \<Rightarrow> Inl e
      | Inr (cdir, fs2) \<Rightarrow>
          (case extract_binary U fs2 (image_dir @ [''conductr-agent-'' @ v @ ''.tgz''])
                  (snd (resolve_conductr_info image_dir)) of
             Inl e \<Rightarrow> Inl e
           | Inr (adir, fs3) \<Rightarrow> Inr ((cdir, adir), w\<lparr>files := fs3\<rparr>)))"
  by (cases "resolve_conductr_info image_dir")
    (simp add: obtain_sandbox_image_def resolve_binaries_cached [OF assms]
       cong: sum.case_cong prod.case_cong)

lemma info_dirs:
  "extraction_dir (fst (resolve_conductr_info image_dir)) = image_dir @ [''core'']"
  "extraction_dir (snd (resolve_conductr_info image_dir)) = image_dir @ [''agent'']"
  by (simp_all add: resolve_conductr_info_def)

lemma basename_snoc: "basename (p @ [x]) = x"
  by (simp add: basename_def)

text \<open>Two extractions in a row, of the core and of the agent archive of one cache directory.\<close>

lemma extract_both_success:
  assumes parent: "lookup fs img = Some (Dir ps)"
    and core: "extract_binary U fs (img @ [''conductr-'' @ v @ ''.tgz''])
                 (fst (resolve_conductr_info img)) = Inr (cdir, fsA)"
    and agent: "extract_binary U fsA (img @ [''conductr-agent-'' @ v @ ''.tgz''])
                 (snd (resolve_conductr_info img)) = Inr (adir, fsB)"
  shows "cdir = img @ [''core''] \<and> adir = img @ [''agent''] \<and>
    (\<exists>bc sc ba sa ps'.
       archive_tree U (''conductr-'' @ v @ ''.tgz'') bc = Inr sc \<and>
       archive_tree U (''conductr-agent-'' @ v @ ''.tgz'') ba = Inr sa \<and>
       lookup fsB (img @ [''conductr-'' @ v @ ''.tgz'']) = Some (File bc) \<and>
       lookup fsB (img @ [''conductr-agent-'' @ v @ ''.tgz'']) = Some (File ba) \<and>
       lookup fsB (img @ [''core'']) = Some sc \<and>
       lookup fsB (img @ [''agent'']) = Some sa \<and>
       lookup fsB img = Some (Dir ps'))"
proof -
  let ?cp = "img @ [''conductr-'' @ v @ ''.tgz'']"
  let ?ap = "img @ [''conductr-agent-'' @ v @ ''.tgz'']"
  let ?cd = "img @ [''core'']"
  let ?ad = "img @ [''agent'']"
  have pc: "lookup fs (butlast ?cd) = Some (Dir ps)" using parent by simp
  from extract_binary_success_tree [OF core info_dirs(1) _ pc]
  obtain bc sc where c1: "cdir = ?cd" and nfc: "\<forall>b. lookup fs ?cd \<noteq> Some (File b)"
    and ac: "lookup fs ?cp = Some (File bc)"
    and tc: "archive_tree U (''conductr-'' @ v @ ''.tgz'') bc = Inr sc"
    by (auto simp: basename_snoc)
  from extract_binary_run_tree [OF info_dirs(1) _ pc nfc ac _, of U sc] tc core
  obtain psA where lA: "lookup fsA ?cd = Some sc" and oA: "same_outside ?cd fs fsA"
    and pA: "lookup fsA img = Some (Dir psA)"
    by (auto simp: basename_snoc)
  have pa: "lookup fsA (butlast ?ad) = Some (Dir psA)" using pA by simp
  from extract_binary_success_tree [OF agent info_dirs(2) _ pa]
  obtain ba sa where a1: "adir = ?ad" and nfa: "\<forall>b. lookup fsA ?ad \<noteq> Some (File b)"
    and aa: "lookup fsA ?ap = Some (File ba)"
    and ta: "archive_tree U (''conductr-agent-'' @ v @ ''.tgz'') ba = Inr sa"
    by (auto simp: basename_snoc)
  from extract_binary_run_tree [OF info_dirs(2) _ pa nfa aa _, of U sa] ta agent
  obtain psB where lB: "lookup fsB ?ad = Some sa" and oB: "same_outside ?ad fsA fsB"
    and pB: "lookup fsB img = Some (Dir psB)"
    by (auto simp: basename_snoc)
  from oA have "lookup fsA ?cp = lookup fs ?cp" by (simp add: same_outside_def)
  with oB ac have cB: "lookup fsB ?cp = Some (File bc)" by (simp add: same_outside_def)
  from oB aa have aB: "lookup fsB ?ap = Some (File ba)" by (simp add: same_outside_def)
  from oB lA have dB: "lookup fsB ?cd = Some sc" by (simp add: same_outside_def)
  from c1 a1 tc ta cB aB dB lB pB show ?thesis by blast
qed

lemma extract_both_run:
  assumes parent: "lookup fs img = Some (Dir ps)"
    and tc: "archive_tree U (''conductr-'' @ v @ ''.tgz'') bc = Inr sc"
    and ta: "archive_tree U (''conductr-agent-'' @ v @ ''.tgz'') ba = Inr sa"
    and ac: "lookup fs (img @ [''conductr-'' @ v @ ''.tgz'']) = Some (File bc)"
    and aa: "lookup fs (img @ [''conductr-agent-'' @ v @ ''.tgz'']) = Some (File ba)"
    and nfc: "\<forall>b. lookup fs (img @ [''core'']) \<noteq> Some (File b)"
    and nfa: "\<forall>b. lookup fs (img @ [''agent'']) \<noteq> Some (File b)"
  shows "\<exists>fsA fsB.
    extract_binary U fs (img @ [''conductr-'' @ v @ ''.tgz''])
       (fst (resolve_conductr_info img)) = Inr (img @ [''core''], fsA) \<and>
    extract_binary U fsA (img @ [''conductr-agent-'' @ v @ ''.tgz''])
       (snd (resolve_conductr_info img)) = Inr (img @ [''agent''], fsB) \<and>
    lookup fsB (img @ [''core'']) = Some sc \<and> lookup fsB (img @ [''agent'']) = Some sa"
proof -
  let ?cp = "img @ [''conductr-'' @ v @ ''.tgz'']"
  let ?ap = "img @ [''conductr-agent-'' @ v @ ''.tgz'']"
  let ?cd = "img @ [''core'']"
  let ?ad = "img @ [''agent'']"
  have pc: "lookup fs (butlast ?cd) = Some (Dir ps)" using parent by simp
  from extract_binary_run_tree [OF info_dirs(1) _ pc nfc ac _, of U sc] tc
  obtain fsA psA where eA: "extract_binary U fs ?cp (fst (resolve_conductr_info img)) = Inr (?cd, fsA)"
    and lA: "lookup fsA ?cd = Some sc" and oA: "same_outside ?cd fs fsA"
    and pA: "lookup fsA img = Some (Dir psA)"
    by (auto simp: basename_snoc)
  have pa: "lookup fsA (butlast ?ad) = Some (Dir psA)" using pA by simp
  from oA aa have aa': "lookup fsA ?ap = Some (File ba)" by (simp add: same_outside_def)
  from oA nfa have nfa': "\<forall>b. lookup fsA ?ad \<noteq> Some (File b)" by (simp add: same_outside_def)
  from extract_binary_run_tree [OF info_dirs(2) _ pa nfa' aa' _, of U sa] ta
  obtain fsB where eB: "extract_binary U fsA ?ap (snd (resolve_conductr_info img)) = Inr (?ad, fsB)"
    and lB: "lookup fsB ?ad = Some sa" and oB: "same_outside ?ad fsA fsB"
    by (auto simp: basename_snoc)
  from oB lA have "lookup fsB ?cd = Some sc" by (simp add: same_outside_def)
  with eA eB lB show ?thesis by blast
qed

text \<open>
  C6: when both archives are in the cache, a call that returns has made no call to the
  artifact service (the credentials are not read, nothing is downloaded: the outcome is
  the same with any artifact service \<open>b'\<close>), and a second call returns the same two
  directories, again without any call to the artifact service, and leaves in each of them
  the very tree the first call left.
\<close>

theorem obtain_sandbox_image_idempotent:
  assumes cc: "py_exists (files w) (image_dir @ [''conductr-'' @ v @ ''.tgz''])"
    and ca: "py_exists (files w) (image_dir @ [''conductr-agent-'' @ v @ ''.tgz''])"
    and first: "obtain_sandbox_image b U image_dir v w = Inr ((cdir, adir), w1)"
  shows "bintray_calls w1 = bintray_calls w \<and>
    obtain_sandbox_image b' U image_dir v w = Inr ((cdir, adir), w1) \<and>
    (\<exists>w2. obtain_sandbox_image b U image_dir v w1 = Inr ((cdir, adir), w2) \<and>
       bintray_calls w2 = bintray_calls w1 \<and>
       lookup (files w2) cdir = lookup (files w1) cdir \<and>
       lookup (files w2) adir = lookup (files w1) adir)"
proof -
  let ?cp = "image_dir @ [''conductr-'' @ v @ ''.tgz'']"
  let ?ap = "image_dir @ [''conductr-agent-'' @ v @ ''.tgz'']"
  from cc obtain n where "lookup (files w) (image_dir @ [''conductr-'' @ v @ ''.tgz'']) = Some n"
    by (auto simp: py_exists_def)
  from lookup_child_parent [OF this] obtain ps where
    parent: "lookup (files w) image_dir = Some (Dir ps)" by blast
  from first obtain fsA fsB where
    core: "extract_binary U (files w) ?cp (fst (resolve_conductr_info image_dir)) = Inr (cdir, fsA)"
    and agent: "extract_binary U fsA ?ap (snd (resolve_conductr_info image_dir)) = Inr (adir, fsB)"
    and w1: "w1 = w\<lparr>files := fsB\<rparr>"
    by (auto simp: obtain_sandbox_image_cached [OF cc ca] split: sum.splits)
  from extract_both_success [OF parent core agent] obtain bc sc ba sa ps' where
    cd: "cdir = image_dir @ [''core'']" and ad: "adir = image_dir @ [''agent'']"
    and tc: "archive_tree U (''conductr-'' @ v @ ''.tgz'') bc = Inr sc"
    and ta: "archive_tree U (''conductr-agent-'' @ v @ ''.tgz'') ba = Inr sa"
    and cB: "lookup fsB ?cp = Some (File bc)" and aB: "lookup fsB ?ap = Some (File ba)"
    and dB: "lookup fsB (image_dir @ [''core'']) = Some sc"
    and eB: "lookup fsB (image_dir @ [''agent'']) = Some sa"
    and pB: "lookup fsB image_dir = Some (Dir ps')"
    by blast
  from archive_tree_Dir [OF tc] dB have nfc: "\<forall>b. lookup fsB (image_dir @ [''core'']) \<noteq> Some (File b)"
    by auto
  from archive_tree_Dir [OF ta] eB have nfa: "\<forall>b. lookup fsB (image_dir @ [''agent'']) \<noteq> Some (File b)"
    by auto
  from extract_both_run [OF pB tc ta cB aB nfc nfa] obtain fsC fsD where
    core2: "extract_binary U fsB ?cp (fst (resolve_conductr_info image_dir))
              = Inr (image_dir @ [''core''], fsC)"
    and agent2: "extract_binary U fsC ?ap (snd (resolve_conductr_info image_dir))
              = Inr (image_dir @ [''agent''], fsD)"
    and dD: "lookup fsD (image_dir @ [''core'']) = Some sc"
    and eD: "lookup fsD (image_dir @ [''agent'']) = Some sa"
    by blast
  have cc1: "py_exists (files w1) ?cp" and ca1: "py_exists (files w1) ?ap"
    using cB aB w1 by (simp_all add: py_exists_def)
  have f1: "files w1 = fsB" using w1 by simp
  have second: "obtain_sandbox_image b U image_dir v w1 = Inr ((cdir, adir), w1\<lparr>files := fsD\<rparr>)"
    by (simp only: obtain_sandbox_image_cached [OF cc1 ca1] f1 core2 agent2 sum.case prod.case cd ad)
  have "bintray_calls w1 = bintray_calls w" using w1 by simp
  moreover have "obtain_sandbox_image b' U image_dir v w = Inr ((cdir, adir), w1)"
    using first by (simp only: obtain_sandbox_image_cached [OF cc ca])
  moreover have "bintray_calls (w1\<lparr>files := fsD\<rparr>) = bintray_calls w1" by simp
  moreover have "lookup (files (w1\<lparr>files := fsD\<rparr>)) cdir = lookup (files w1) cdir"
    using dD dB w1 cd by simp
  moreover have "lookup (files (w1\<lparr>files := fsD\<rparr>)) adir = lookup (files w1) adir"
    using eD eB w1 ad by simp
  ultimately show ?thesis using second by blast
qed

section \<open>Verification: the artifact service\<close>

text \<open>
  C7: an HTTP error should give a not-found error that carries the kind whose download
  failed. The handler always passes the type of the core image: with the core archive in
  the cache and the download of the agent archive answered by an HTTP error, the error
  names \<open>core\<close>.
\<close>

theorem resolve_binaries_reports_core:
  "obtain_sandbox_image bintray_not_found sample_archives [''images''] ''1.0'' (sample_world core_only_fs)
     = Inl (SandboxImageNotFoundError ''core'' ''1.0'')"
  by (simp add: obtain_sandbox_image_def resolve_conductr_info_def resolve_binaries_def
      resolve_binary_from_cache_def py_exists_def sample_world_def core_only_fs_def
      download_missing_def bintray_not_found_def stored_credentials_def bintray_download_def
      download_not_found_def)

section \<open>Verification: the run\<close>

text \<open>
  C10: the result's \<open>host\<close> is \<open>str(core_addrs[0])\<close>, so a run whose parsed core count is 0
  never returns a result: the core addresses are \<open>bind_addrs[0:0]\<close>, the empty list, and
  building the result raises \<open>IndexError\<close>. That is the outcome of the run whenever the
  steps before it succeed (the JVM check, stopping the old sandbox, the allocation, the
  image, the launch of the agents; no core instance is launched).
\<close>

theorem run_zero_core_instances:
  assumes "instance_count (args_image_version args) (args_nr_of_containers args) = Inr (0, na)"
  shows "(\<exists>e. run env args w = Inl e) \<and>
    (\<forall>u w1 bind_addrs cdir adir w2 apids l4.
       validate_jvm_support (env_java env) = Inr u \<longrightarrow>
       env_stop env w = Inr w1 \<longrightarrow>
       fst (find_bind_addrs (env_can_bind env) (env_alias_command env) (max 0 na)
              (args_addr_range args)) = Inr bind_addrs \<longrightarrow>
       obtain_sandbox_image (env_bintray env) (env_unarchive env) (args_image_dir args)
         (args_image_version args) w1 = Inr ((cdir, adir), w2) \<longrightarrow>
       start_agent_instances (env_popen env) (env_str env) (path_str adir)
         (py_slice0 bind_addrs na) (launched w2) = Inr (apids, l4) \<longrightarrow>
       run env args w = Inl IndexError) \<and>
    SandboxRunResult_init (env_str env) cp (py_slice0 addrs 0) ap aa n = Inl IndexError"
proof (intro conjI allI impI)
  show "\<exists>e. run env args w = Inl e"
    by (simp add: run_def assms Let_def SandboxRunResult_init_def py_index_def py_slice0_def
        split: sum.split prod.split)
  show "SandboxRunResult_init (env_str env) cp (py_slice0 addrs 0) ap aa n = Inl IndexError"
    by (simp add: SandboxRunResult_init_def py_index_def py_slice0_def)
next
  fix u w1 bind_addrs cdir adir w2 apids l4
  assume "validate_jvm_support (env_java env) = Inr u" and "env_stop env w = Inr w1"
    and "fst (find_bind_addrs (env_can_bind env) (env_alias_command env) (max 0 na)
              (args_addr_range args)) = Inr bind_addrs"
    and "obtain_sandbox_image (env_bintray env) (env_unarchive env) (args_image_dir args)
         (args_image_version args) w1 = Inr ((cdir, adir), w2)"
    and "start_agent_instances (env_popen env) (env_str env) (path_str adir)
         (py_slice0 bind_addrs na) (launched w2) = Inr (apids, l4)"
  then show "run env args w = Inl IndexError"
    by (simp add: run_def assms Let_def SandboxRunResult_init_def py_index_def
        start_core_instances_def py_slice0_def [of _ 0])
qed

section \<open>Verification: the sample host\<close>

text \<open>The model run on the sample host: the theorems above at concrete inputs.\<close>

lemmas fs_eval =
  extract_binary_def rmtree_def makedirs.simps mkdir_def unpack_archive_def basename_def
  splitext_root_def listdir_def move_def isdir_def rmdir_def py_exists_def Let_def
  sample_archives_def archive_table_def conductr_tgz_def agent_tgz_def other_tgz_def
  resolve_conductr_info_def

lemma obtain_sample:
  "obtain_sandbox_image bintray_unreachable sample_archives [''images''] ''1.0''
     (sample_world cached_fs)
   = Inr (([''images'', ''core''], [''images'', ''agent'']), sample_world extracted_fs)"
  by (simp add: obtain_sandbox_image_def resolve_binaries_def resolve_binary_from_cache_def
      sample_world_def cached_fs_def extracted_fs_def fs_eval)

lemma obtain_sample_again:
  "obtain_sandbox_image bintray_unreachable sample_archives [''images''] ''1.0''
     (sample_world extracted_fs)
   = Inr (([''images'', ''core''], [''images'', ''agent'']), sample_world extracted_fs)"
  by (simp add: obtain_sandbox_image_def resolve_binaries_def resolve_binary_from_cache_def
      sample_world_def extracted_fs_def fs_eval)

theorem extract_binary_flattens_witness:
  "extraction_dir (fst (resolve_conductr_info [''images''])) = [''images'', ''core''] \<and>
   [''images'', ''core''] \<noteq> [] \<and>
   \<not> below_file cached_fs [''images'', ''core''] \<and>
   lookup cached_fs [''images'', ''conductr-1.0.tgz''] = Some (File ''CORE'') \<and>
   \<not> prefix [''images'', ''core''] [''images'', ''conductr-1.0.tgz''] \<and>
   sample_archives (basename [''images'', ''conductr-1.0.tgz'']) ''CORE''
     = Some [(splitext_root (basename [''images'', ''conductr-1.0.tgz'']),
              Dir [(''bin'', Dir [(''conductr'', File ''#!core'')]), (''conf'', File ''c'')])] \<and>
   distinct (map fst [(''bin'', Dir [(''conductr'', File ''#!core'')]), (''conf'', File ''c'')]) \<and>
   splitext_root (basename [''images'', ''conductr-1.0.tgz''])
     \<notin> fst ` set [(''bin'', Dir [(''conductr'', File ''#!core'')]), (''conf'', File ''c'')] \<and>
   (\<exists>fs'. extract_binary sample_archives cached_fs [''images'', ''conductr-1.0.tgz'']
             (fst (resolve_conductr_info [''images''])) = Inr ([''images'', ''core''], fs') \<and>
          lookup fs' [''images'', ''core'']
            = Some (Dir [(''bin'', Dir [(''conductr'', File ''#!core'')]), (''conf'', File ''c'')]) \<and>
          lookup fs' ([''images'', ''core''] @ [splitext_root (basename [''images'', ''conductr-1.0.tgz''])])
            = None)"
proof -
  have h1: "extraction_dir (fst (resolve_conductr_info [''images''])) = [''images'', ''core'']"
    by (simp add: resolve_conductr_info_def)
  have h2: "[''images'', ''core''] \<noteq> []" by simp
  have h3: "\<not> below_file cached_fs [''images'', ''core'']"
    by (simp add: cached_fs_def)
  have h5: "lookup cached_fs [''images'', ''conductr-1.0.tgz''] = Some (File ''CORE'')"
    by (simp add: cached_fs_def)
  have h6: "\<not> prefix [''images'', ''core''] [''images'', ''conductr-1.0.tgz'']" by simp
  have h7: "sample_archives (basename [''images'', ''conductr-1.0.tgz'']) ''CORE''
     = Some [(splitext_root (basename [''images'', ''conductr-1.0.tgz'']),
              Dir [(''bin'', Dir [(''conductr'', File ''#!core'')]), (''conf'', File ''c'')])]"
    by (simp add: sample_archives_def archive_table_def conductr_tgz_def basename_def splitext_root_def)
  have h8: "distinct (map fst [(''bin'', Dir [(''conductr'', File ''#!core'')]), (''conf'', File ''c'')])"
    by simp
  have h9: "splitext_root (basename [''images'', ''conductr-1.0.tgz''])
     \<notin> fst ` set [(''bin'', Dir [(''conductr'', File ''#!core'')]), (''conf'', File ''c'')]"
    by (simp add: basename_def splitext_root_def)
  from extract_binary_flattens [where U = sample_archives, OF h1 h2 h3 h5 h6 h7 h8 h9]
  have c: "\<exists>fs'. extract_binary sample_archives cached_fs [''images'', ''conductr-1.0.tgz'']
             (fst (resolve_conductr_info [''images''])) = Inr ([''images'', ''core''], fs') \<and>
          lookup fs' [''images'', ''core'']
            = Some (Dir [(''bin'', Dir [(''conductr'', File ''#!core'')]), (''conf'', File ''c'')]) \<and>
          lookup fs' ([''images'', ''core''] @ [splitext_root (basename [''images'', ''conductr-1.0.tgz''])])
            = None"
    by blast
  from h1 h2 h3 h5 h6 h7 h8 h9 c show ?thesis by (intro conjI)
qed

text \<open>
  The claim as stated, for every archive: an archive \<open>conductr-1.0.tgz\<close> whose top-level
  folder is named \<open>release\<close> is unpacked, and then listing \<open>core/conductr-1.0\<close> fails; the
  extraction does not return.
\<close>

theorem extract_binary_renamed_counterexample:
  "extract_binary sample_archives renamed_fs [''images'', ''conductr-1.0.tgz'']
     (fst (resolve_conductr_info [''images''])) = Inl FileNotFoundError"
  by (simp add: fs_eval renamed_fs_def)

theorem obtain_sandbox_image_idempotent_witness:
  "py_exists (files (sample_world cached_fs)) ([''images''] @ [''conductr-'' @ ''1.0'' @ ''.tgz'']) \<and>
   py_exists (files (sample_world cached_fs)) ([''images''] @ [''conductr-agent-'' @ ''1.0'' @ ''.tgz'']) \<and>
   obtain_sandbox_image bintray_unreachable sample_archives [''images''] ''1.0''
     (sample_world cached_fs)
     = Inr (([''images'', ''core''], [''images'', ''agent'']), sample_world extracted_fs) \<and>
   bintray_calls (sample_world extracted_fs) = bintray_calls (sample_world cached_fs) \<and>
   (\<exists>w2. obtain_sandbox_image bintray_unreachable sample_archives [''images''] ''1.0''
            (sample_world extracted_fs)
          = Inr (([''images'', ''core''], [''images'', ''agent'']), w2) \<and>
        bintray_calls w2 = bintray_calls (sample_world extracted_fs) \<and>
        lookup (files w2) [''images'', ''core''] = lookup (files (sample_world extracted_fs)) [''images'', ''core''] \<and>
        lookup (files w2) [''images'', ''agent''] = lookup (files (sample_world extracted_fs)) [''images'', ''agent''])"
proof -
  have h1: "py_exists (files (sample_world cached_fs)) ([''images''] @ [''conductr-'' @ ''1.0'' @ ''.tgz''])"
    by (simp add: py_exists_def sample_world_def cached_fs_def)
  have h2: "py_exists (files (sample_world cached_fs)) ([''images''] @ [''conductr-agent-'' @ ''1.0'' @ ''.tgz''])"
    by (simp add: py_exists_def sample_world_def cached_fs_def)
  note h3 = obtain_sample
  from obtain_sandbox_image_idempotent [OF h1 h2 h3] h1 h2 h3 show ?thesis by (intro conjI) blast+
qed

lemma sample_zero_expression:
  "instance_count (args_image_version (sample_args ''0''))
     (args_nr_of_containers (sample_args ''0'')) = Inr (0, 0)"
  by (simp add: sample_args_def instance_count_def py_int_def py_strip_def py_isspace_def
      py_digits_def is_digit_def digit_val_def)

lemma sample_jvm: "validate_jvm_support (env_java sample_env) = Inr ()"
  by (simp add: sample_env_def validate_jvm_support_def validate_jvm_body_def
      subprocess_getoutput_def splitlines_def is_linebreak_def SUPPORTED_JVM_VENDOR_def
      SUPPORTED_JVM_VERSION_def version_ge_def py_int_def py_strip_def py_isspace_def
      py_digits_def is_digit_def digit_val_def)

lemma sample_stop: "env_stop sample_env w = Inr w"
  by (simp add: sample_env_def stop_nothing_def)

lemma sample_find_zero:
  "fst (find_bind_addrs (env_can_bind sample_env) (env_alias_command sample_env) (max 0 0)
          (args_addr_range (sample_args ''0''))) = Inr [3232268289]"
  by (simp add: sample_env_def sample_args_def find_bind_addrs_def net_29_def bindable_in_def
      BIND_TEST_PORT_def)

lemma sample_obtain:
  "obtain_sandbox_image (env_bintray sample_env) (env_unarchive sample_env)
     (args_image_dir (sample_args ''0'')) (args_image_version (sample_args ''0''))
     (sample_world cached_fs)
   = Inr (([''images'', ''core''], [''images'', ''agent'']), sample_world extracted_fs)"
  using obtain_sample by (simp add: sample_env_def sample_args_def)

lemma sample_no_agents:
  "start_agent_instances (env_popen sample_env) (env_str sample_env)
     (path_str [''images'', ''agent'']) (py_slice0 [3232268289] 0)
     (launched (sample_world extracted_fs)) = Inr ([], [])"
  by (simp add: start_agent_instances_def py_slice0_def sample_world_def)

theorem run_zero_core_instances_witness:
  "instance_count (args_image_version (sample_args ''0'')) (args_nr_of_containers (sample_args ''0''))
     = Inr (0, 0) \<and>
   validate_jvm_support (env_java sample_env) = Inr () \<and>
   env_stop sample_env (sample_world cached_fs) = Inr (sample_world cached_fs) \<and>
   fst (find_bind_addrs (env_can_bind sample_env) (env_alias_command sample_env) (max 0 0)
          (args_addr_range (sample_args ''0''))) = Inr [3232268289] \<and>
   obtain_sandbox_image (env_bintray sample_env) (env_unarchive sample_env)
     (args_image_dir (sample_args ''0'')) (args_image_version (sample_args ''0''))
     (sample_world cached_fs)
     = Inr (([''images'', ''core''], [''images'', ''agent'']), sample_world extracted_fs) \<and>
   start_agent_instances (env_popen sample_env) (env_str sample_env)
     (path_str [''images'', ''agent'']) (py_slice0 [3232268289] 0)
     (launched (sample_world extracted_fs)) = Inr ([], []) \<and>
   run sample_env (sample_args ''0'') (sample_world cached_fs) = Inl IndexError"
proof -
  note t = run_zero_core_instances [OF sample_zero_expression, of sample_env "sample_world cached_fs"]
  from t have "\<forall>u w1 bind_addrs cdir adir w2 apids l4.
       validate_jvm_support (env_java sample_env) = Inr u \<longrightarrow>
       env_stop sample_env (sample_world cached_fs) = Inr w1 \<longrightarrow>
       fst (find_bind_addrs (env_can_bind sample_env) (env_alias_command sample_env) (max 0 0)
              (args_addr_range (sample_args ''0''))) = Inr bind_addrs \<longrightarrow>
       obtain_sandbox_image (env_bintray sample_env) (env_unarchive sample_env)
         (args_image_dir (sample_args ''0'')) (args_image_version (sample_args ''0'')) w1
         = Inr ((cdir, adir), w2) \<longrightarrow>
       start_agent_instances (env_popen sample_env) (env_str sample_env) (path_str adir)
         (py_slice0 bind_addrs 0) (launched w2) = Inr (apids, l4) \<longrightarrow>
       run sample_env (sample_args ''0'') (sample_world cached_fs) = Inl IndexError"
    by blast
  from this [rule_format, OF sample_jvm sample_stop sample_find_zero sample_obtain sample_no_agents]
  have "run sample_env (sample_args ''0'') (sample_world cached_fs) = Inl IndexError" .
  with sample_zero_expression sample_jvm sample_stop [of "sample_world cached_fs"]
    sample_find_zero sample_obtain sample_no_agents
  show ?thesis by (intro conjI)
qed

end
